theory Spec2Isabelle
  imports Main "HOL-Library.AList"
begin

section \<open>Alert service (services/alerts/alert\_service.py)\<close>

text \<open>
  Wall-clock instants, as \<open>datetime.now()\<close> returns them (local time, without a time
  zone), are integers counting microseconds (the resolution of a Python datetime). The
  clock is a parameter \<open>clk\<close>: its value at \<open>n\<close> is what the \<open>n\<close>-th call of
  \<open>datetime.now()\<close> returns, so any amount of time may pass between two readings, and a
  reading may be earlier than the one before it when the wall clock is set back. The
  service counts its readings in \<open>ticks\<close>.
\<close>

type_synonym time = int

definition hour_us :: int where
  "hour_us = 3600000000"

text \<open>\<open>timedelta(hours=24)\<close>.\<close>

definition hours24 :: int where
  "hours24 = 24 * hour_us"

text \<open>
  \<open>strftime('%Y%m%d%H')\<close> names the hour a reading lies in. The model names that hour
  by its index since the epoch; the ten-digit label and the index determine each other.
\<close>

definition hour_label :: "time \<Rightarrow> int" where
  "hour_label t = t div hour_us"

text \<open>
  An alert key is the f-string \<open>"<check>_<hour>"\<close>, or \<open>"brute_force_<ip>_<hour>"\<close>,
  kept as its three components: check name, dimension (the IP, or empty) and hour. The
  hour label has ten digits and the four check names differ in their first letter, so the
  string and the three components determine each other.
\<close>

type_synonym alert_key = "string \<times> string \<times> int"

record threshold_config =
  high_volume_attacks :: int
  unique_ips_per_hour :: int
  brute_force_attempts :: int
  iot_botnet_activity :: int

text \<open>
  One call of \<open>send_alert\<close>: subject, severity and the metadata (the count, and the IPs
  named). \<open>n_key\<close> is the key under which the caller records the call; the formatted
  message text is left out.
\<close>

record notification =
  n_key :: alert_key
  n_subject :: string
  n_severity :: string
  n_value :: int
  n_ips :: "string list"

text \<open>
  \<open>sent_alerts\<close> is the dictionary of the service, in insertion order. \<open>dispatched\<close> is the
  sequence of \<open>send_alert\<close> calls made so far.
\<close>

record alert_service =
  thresholds :: threshold_config
  sent_alerts :: "(alert_key \<times> time) list"
  dispatched :: "notification list"
  ticks :: nat

definition init_service :: "threshold_config \<Rightarrow> alert_service" where
  "init_service th = \<lparr>thresholds = th, sent_alerts = [], dispatched = [], ticks = 0\<rparr>"

text \<open>The thresholds of \<open>__init__\<close> when the environment sets none.\<close>

definition default_thresholds :: threshold_config where
  "default_thresholds =
     \<lparr>high_volume_attacks = 100, unique_ips_per_hour = 50, brute_force_attempts = 20,
      iot_botnet_activity = 10\<rparr>"

definition now :: "(nat \<Rightarrow> time) \<Rightarrow> alert_service \<Rightarrow> time \<times> alert_service" where
  "now clk s = (clk (ticks s), s\<lparr>ticks := Suc (ticks s)\<rparr>)"

text \<open>
  \<open>send_alert\<close> logs the alert and hands it to each configured channel; both channel
  senders catch their own exceptions, so the call always returns.
\<close>

definition send_alert ::
  "alert_key \<Rightarrow> string \<Rightarrow> string \<Rightarrow> int \<Rightarrow> string list \<Rightarrow> alert_service \<Rightarrow> alert_service" where
  "send_alert k subject severity v ips s =
     s\<lparr>dispatched := dispatched s @
        [\<lparr>n_key = k, n_subject = subject, n_severity = severity, n_value = v, n_ips = ips\<rparr>]\<rparr>"

text \<open>
  The body shared by the four checks once the aggregate exceeds its threshold: build the
  key from a clock reading, and if the key is not in \<open>sent_alerts\<close>, call \<open>send_alert\<close>
  and store the key with a second clock reading.
\<close>

definition alert_once ::
  "(nat \<Rightarrow> time) \<Rightarrow> string \<Rightarrow> string \<Rightarrow> string \<Rightarrow> string \<Rightarrow> int \<Rightarrow> string list
     \<Rightarrow> alert_service \<Rightarrow> alert_service" where
  "alert_once clk name dim subject severity v ips s =
     (let (t1, s1) = now clk s;
          alert_key = (name, dim, hour_label t1)
      in if map_of (sent_alerts s1) alert_key = None
         then (let s2 = send_alert alert_key subject severity v ips s1;
                   (t2, s3) = now clk s2
               in s3\<lparr>sent_alerts := AList.update alert_key t2 (sent_alerts s3)\<rparr>)
         else s1)"

text \<open>
  The search response is \<open>None\<close> when \<open>es.search\<close> raises or the aggregation is missing:
  the \<open>except\<close> clause logs the error and the check does nothing.
\<close>

definition check_high_volume_attacks ::
  "(nat \<Rightarrow> time) \<Rightarrow> int option \<Rightarrow> alert_service \<Rightarrow> alert_service" where
  "check_high_volume_attacks clk response s =
     (case response of
        None \<Rightarrow> s
      | Some attack_count \<Rightarrow>
          if attack_count > high_volume_attacks (thresholds s)
          then alert_once clk ''high_volume'' [] ''High Volume Attack Detected'' ''high''
                 attack_count [] s
          else s)"

definition check_unique_ips ::
  "(nat \<Rightarrow> time) \<Rightarrow> int option \<Rightarrow> alert_service \<Rightarrow> alert_service" where
  "check_unique_ips clk response s =
     (case response of
        None \<Rightarrow> s
      | Some unique_ip_count \<Rightarrow>
          if unique_ip_count > unique_ips_per_hour (thresholds s)
          then alert_once clk ''unique_ips'' [] ''Unusual IP Activity Detected'' ''medium''
                 unique_ip_count [] s
          else s)"

text \<open>The loop over the buckets \<open>(key, doc_count)\<close> of the terms aggregation.\<close>

fun brute_force_buckets ::
  "(nat \<Rightarrow> time) \<Rightarrow> (string \<times> int) list \<Rightarrow> alert_service \<Rightarrow> alert_service" where
  "brute_force_buckets clk [] s = s"
| "brute_force_buckets clk ((ip, attempt_count) # buckets) s =
     brute_force_buckets clk buckets
       (if attempt_count > brute_force_attempts (thresholds s)
        then alert_once clk ''brute_force'' ip ''Brute Force Attack Detected'' ''high''
               attempt_count [ip] s
        else s)"

definition check_brute_force_attacks ::
  "(nat \<Rightarrow> time) \<Rightarrow> (string \<times> int) list option \<Rightarrow> alert_service \<Rightarrow> alert_service" where
  "check_brute_force_attacks clk response s =
     (case response of
        None \<Rightarrow> s
      | Some buckets \<Rightarrow> brute_force_buckets clk buckets s)"

definition check_iot_botnet_activity ::
  "(nat \<Rightarrow> time) \<Rightarrow> (int \<times> (string \<times> int) list) option \<Rightarrow> alert_service \<Rightarrow> alert_service" where
  "check_iot_botnet_activity clk response s =
     (case response of
        None \<Rightarrow> s
      | Some (iot_count, buckets) \<Rightarrow>
          if iot_count > iot_botnet_activity (thresholds s)
          then alert_once clk ''iot_botnet'' [] ''IoT Botnet Activity Detected'' ''critical''
                 iot_count (map fst (take 5 buckets)) s
          else s)"

definition cleanup_old_alerts :: "(nat \<Rightarrow> time) \<Rightarrow> alert_service \<Rightarrow> alert_service" where
  "cleanup_old_alerts clk s =
     (let (t, s1) = now clk s;
          cutoff_time = t - hours24;
          keys_to_remove =
            map fst (filter (\<lambda>(key, timestamp). timestamp < cutoff_time) (sent_alerts s1))
      in s1\<lparr>sent_alerts := fold AList.delete keys_to_remove (sent_alerts s1)\<rparr>)"

text \<open>The four search responses of one \<open>run_checks\<close> cycle.\<close>

record responses =
  r_volume :: "int option"
  r_ips :: "int option"
  r_brute :: "(string \<times> int) list option"
  r_iot :: "(int \<times> (string \<times> int) list) option"

definition run_checks :: "(nat \<Rightarrow> time) \<Rightarrow> responses \<Rightarrow> alert_service \<Rightarrow> alert_service" where
  "run_checks clk r s =
     check_iot_botnet_activity clk (r_iot r)
       (check_brute_force_attacks clk (r_brute r)
         (check_unique_ips clk (r_ips r)
           (check_high_volume_attacks clk (r_volume r) s)))"

text \<open>
  What the scheduler of \<open>run\<close> executes, one job after the other: a cycle of checks or a
  cleanup. An execution history is a list of jobs.
\<close>

datatype job = RunChecks responses | Cleanup

fun exec_job :: "(nat \<Rightarrow> time) \<Rightarrow> job \<Rightarrow> alert_service \<Rightarrow> alert_service" where
  "exec_job clk (RunChecks r) s = run_checks clk r s"
| "exec_job clk Cleanup s = cleanup_old_alerts clk s"

definition exec_jobs :: "(nat \<Rightarrow> time) \<Rightarrow> job list \<Rightarrow> alert_service \<Rightarrow> alert_service" where
  "exec_jobs clk js s = fold (exec_job clk) js s"

text \<open>The keys under which \<open>send_alert\<close> has been called so far.\<close>

definition keys_sent :: "alert_service \<Rightarrow> alert_key list" where
  "keys_sent s = map n_key (dispatched s)"

text \<open>
  How far the wall clock may step back: a reading is never more than eleven and a half
  hours earlier than a reading taken before it. A clock that never runs backwards is
  steady, and so is one that is set back an hour for daylight saving.
\<close>

definition max_step_back :: int where
  "max_step_back = 41400000000"

definition steady :: "(nat \<Rightarrow> time) \<Rightarrow> bool" where
  "steady clk \<longleftrightarrow> (\<forall>i j. i \<le> j \<longrightarrow> clk i \<le> clk j + max_step_back)"

text \<open>
  The invariant of the deduplication store: no key was dispatched twice; the store is a
  dictionary; every stored key was dispatched; a dispatched key that is no longer stored
  names an hour before the hour of every reading still to come; and a stored key names
  an hour no later than the hour of its timestamp moved forward by the largest step back.
\<close>

definition dedup_inv :: "(nat \<Rightarrow> time) \<Rightarrow> alert_service \<Rightarrow> bool" where
  "dedup_inv clk s \<longleftrightarrow>
     distinct (keys_sent s) \<and>
     distinct (map fst (sent_alerts s)) \<and>
     fst ` set (sent_alerts s) \<subseteq> set (keys_sent s) \<and>
     (\<forall>k \<in> set (keys_sent s).
        k \<in> fst ` set (sent_alerts s) \<or>
        (\<forall>j \<ge> ticks s. snd (snd k) < hour_label (clk j))) \<and>
     (\<forall>(k, ts) \<in> set (sent_alerts s). snd (snd k) \<le> hour_label (ts + max_step_back))"

text \<open>
  Deduplication against the whole history, as the specification words it: going through
  the IPs of the buckets above the threshold, the key of an IP is dispatched exactly when
  it is not among the keys dispatched so far. \<open>t\<close> counts the clock readings: one reading
  makes the key, and a dispatch takes one more for the timestamp.
\<close>

fun dispatch_by_history ::
  "(nat \<Rightarrow> time) \<Rightarrow> string list \<Rightarrow> nat \<Rightarrow> alert_key list \<Rightarrow> alert_key list" where
  "dispatch_by_history clk [] t keys = keys"
| "dispatch_by_history clk (ip # ips) t keys =
     (if (''brute_force'', ip, hour_label (clk t)) \<in> set keys
      then dispatch_by_history clk ips (Suc t) keys
      else dispatch_by_history clk ips (Suc (Suc t))
             (keys @ [(''brute_force'', ip, hour_label (clk t))]))"

section \<open>Python values shared by the decoys\<close>

text \<open>
  A Python \<open>str\<close> is a HOL \<open>string\<close>, one \<open>char\<close> per code point, so the model holds
  the code points below 256; on these the functions below do what Python does. A
  dictionary with string keys is an association list in insertion order; \<open>d[k] = v\<close> is
  \<open>AList.update\<close> and \<open>d.get(k)\<close> is \<open>map_of\<close>.
\<close>

datatype pyval = PStr string | PInt int | PBool bool | PDict "(string \<times> string) list"

type_synonym pydict = "(string \<times> pyval) list"

datatype py_error = AttributeError | Exception string

text \<open>
  \<open>str.lower()\<close> on the code points below 256: the letters A to Z, and the Latin-1
  capitals U+00C0 to U+00DE other than the multiplication sign U+00D7, move up by 32.
\<close>

definition lower_char :: "char \<Rightarrow> char" where
  "lower_char c =
     (let n = (of_char c :: nat)
      in if (65 \<le> n \<and> n \<le> 90) \<or> (192 \<le> n \<and> n \<le> 222 \<and> n \<noteq> 215)
         then char_of (n + 32) else c)"

definition py_lower :: "string \<Rightarrow> string" where
  "py_lower s = map lower_char s"

text \<open>\<open>s.startswith(p)\<close> and \<open>p in s\<close> on strings.\<close>

definition startswith :: "string \<Rightarrow> string \<Rightarrow> bool" where
  "startswith s p = (take (length p) s = p)"

fun contains :: "string \<Rightarrow> string \<Rightarrow> bool" where
  "contains [] p = (p = [])"
| "contains (c # cs) p = (startswith (c # cs) p \<or> contains cs p)"

text \<open>\<open>any(p in s for p in patterns)\<close>.\<close>

definition any_in :: "string list \<Rightarrow> string \<Rightarrow> bool" where
  "any_in patterns s = list_ex (\<lambda>p. contains s p) patterns"

text \<open>
  \<open>str.isspace()\<close> on the code points below 256: tab, line feed, vertical tab, form
  feed, carriage return, the four separators 0x1C to 0x1F, the space, the next-line
  control U+0085 and the no-break space U+00A0.
\<close>

definition py_isspace :: "char \<Rightarrow> bool" where
  "py_isspace c =
     (let n = (of_char c :: nat)
      in (9 \<le> n \<and> n \<le> 13) \<or> (28 \<le> n \<and> n \<le> 32) \<or> n = 133 \<or> n = 160)"

definition py_strip :: "string \<Rightarrow> string" where
  "py_strip s = rev (dropWhile py_isspace (rev (dropWhile py_isspace s)))"

text \<open>\<open>str.split()\<close> without arguments: the maximal runs of non-space characters.\<close>

fun split_ws :: "string \<Rightarrow> string \<Rightarrow> string list" where
  "split_ws w [] = (if w = [] then [] else [w])"
| "split_ws w (c # cs) =
     (if py_isspace c then (if w = [] then split_ws [] cs else w # split_ws [] cs)
      else split_ws (w @ [c]) cs)"

definition py_split :: "string \<Rightarrow> string list" where
  "py_split s = split_ws [] s"

text \<open>\<open>counts[k] = counts.get(k, 0) + 1\<close>.\<close>

definition bump :: "string \<Rightarrow> (string \<times> nat) list \<Rightarrow> (string \<times> nat) list" where
  "bump k counts = AList.update k (case map_of counts k of None \<Rightarrow> 1 | Some n \<Rightarrow> n + 1) counts"

text \<open>\<open>d.update(e)\<close> for dictionaries.\<close>

definition dict_update :: "pydict \<Rightarrow> pydict \<Rightarrow> pydict" where
  "dict_update d e = fold (\<lambda>(k, v). AList.update k v) e d"

text \<open>
  What \<open>log_event\<close> adds to every event before writing and forwarding it. The fields
  read from the clock (\<open>timestamp\<close> here, \<open>session_id\<close> and \<open>connection_id\<close> in the
  events) are left out of the model. \<open>log_event\<close> catches the exceptions of both the file
  write and the forwarding request, so it always returns.
\<close>

definition stamp :: "string \<Rightarrow> pydict \<Rightarrow> pydict" where
  "stamp service event_data =
     dict_update event_data
       [(''service'', PStr service),
        (''honeypot_type'', PStr (service @ ''_honeypot'')),
        (''version'', PStr ''1.0.0'')]"

definition event_type :: "pydict \<Rightarrow> string" where
  "event_type e = (case map_of e ''event_type'' of Some (PStr t) \<Rightarrow> t | _ \<Rightarrow> [])"

section \<open>HTTP honeypot (honeypots/http/http\_honeypot.py)\<close>

record http_honeypot =
  http_total_requests :: nat
  http_unique_ips :: "string set"
  http_attack_types :: "(string \<times> nat) list"
  http_user_agents :: "(string \<times> nat) list"
  http_request_methods :: "(string \<times> nat) list"
  http_events :: "pydict list"

definition http_log_event :: "pydict \<Rightarrow> http_honeypot \<Rightarrow> http_honeypot" where
  "http_log_event event_data h = h\<lparr>http_events := http_events h @ [stamp ''http'' event_data]\<rparr>"

definition sql_patterns :: "string list" where
  "sql_patterns = [''union'', ''select'', ''insert'', ''update'', ''delete'', ''drop'', ''create'',
     ''alter'', [CHR 0x27], [CHR 0x22], ''--'', [CHR ''/'', CHR ''*'']]"

definition xss_patterns :: "string list" where
  "xss_patterns = [''<script'', ''javascript:'', ''onload='', ''onerror='', ''alert('',
     ''document.cookie'']"

definition admin_patterns :: "string list" where
  "admin_patterns = [''admin'', ''wp-admin'', ''phpmyadmin'', ''login'', ''administrator'',
     ''manager'']"

definition scanner_agents :: "string list" where
  "scanner_agents = [''bot'', ''crawler'', ''scanner'', ''nikto'', ''sqlmap'', ''nmap'', ''masscan'']"

definition cmd_patterns :: "string list" where
  "cmd_patterns = [''|'', '';'', ''&&'', ''||'', [CHR 0x60], ''$'', ''$('']"

text \<open>
  The seven \<open>if\<close> statements of \<open>analyze_request\<close>, in the order of the source, on the
  lower-cased URI and User-Agent. Each one that fires appends its tag and assigns the
  threat level.
\<close>

definition classify :: "string \<Rightarrow> string \<Rightarrow> string list \<times> string" where
  "classify uri user_agent =
     (let (attack_types, threat_level) = ([], ''low'');
          (attack_types, threat_level) =
            (if any_in sql_patterns uri
             then (attack_types @ [''sql_injection''], ''high'')
             else (attack_types, threat_level));
          (attack_types, threat_level) =
            (if any_in xss_patterns uri
             then (attack_types @ [''xss''], ''high'')
             else (attack_types, threat_level));
          (attack_types, threat_level) =
            (if contains uri ''../'' \<or> contains uri [CHR ''.'', CHR ''.'', CHR 0x5C]
             then (attack_types @ [''directory_traversal''], ''medium'')
             else (attack_types, threat_level));
          (attack_types, threat_level) =
            (if any_in admin_patterns uri
             then (attack_types @ [''admin_access''], ''medium'')
             else (attack_types, threat_level));
          (attack_types, threat_level) =
            (if any_in scanner_agents user_agent
             then (attack_types @ [''automated_scan''], ''medium'')
             else (attack_types, threat_level));
          (attack_types, threat_level) =
            (if contains uri ''include'' \<or> contains uri ''require''
             then (attack_types @ [''file_inclusion''], ''high'')
             else (attack_types, threat_level));
          (attack_types, threat_level) =
            (if any_in cmd_patterns uri
             then (attack_types @ [''command_injection''], ''high'')
             else (attack_types, threat_level))
      in (attack_types, threat_level))"

text \<open>
  \<open>request_data.get(key, '').lower()\<close>: a missing key gives the empty string, and
  there is no \<open>lower\<close> on a value that is not a string.
\<close>

definition get_lower :: "pydict \<Rightarrow> string \<Rightarrow> py_error + string" where
  "get_lower request_data key =
     (case map_of request_data key of
        None \<Rightarrow> Inr (py_lower [])
      | Some (PStr v) \<Rightarrow> Inr (py_lower v)
      | Some _ \<Rightarrow> Inl AttributeError)"

text \<open>
  \<open>analyze_request\<close> is a method: \<open>self\<close> is its first argument. It also reads
  \<open>method\<close> from the request and does not use it.
\<close>

definition analyze_request :: "http_honeypot \<Rightarrow> pydict \<Rightarrow> py_error + (string list \<times> string)" where
  "analyze_request self request_data =
     (case get_lower request_data ''request_uri'' of
        Inl e \<Rightarrow> Inl e
      | Inr uri \<Rightarrow>
          (case get_lower request_data ''user_agent'' of
             Inl e \<Rightarrow> Inl e
           | Inr user_agent \<Rightarrow>
               (let method = map_of request_data ''method''
                in Inr (classify uri user_agent))))"

text \<open>A request dictionary that holds just the method, the URI and the User-Agent.\<close>

definition http_request :: "string \<Rightarrow> string \<Rightarrow> string \<Rightarrow> pydict" where
  "http_request method uri user_agent =
     [(''method'', PStr method), (''request_uri'', PStr uri), (''user_agent'', PStr user_agent)]"

text \<open>The rules of the classifier as a table: trigger, tag and level of each.\<close>

definition rules :: "((string \<Rightarrow> string \<Rightarrow> bool) \<times> string \<times> string) list" where
  "rules =
     [(\<lambda>uri ua. any_in sql_patterns uri, ''sql_injection'', ''high''),
      (\<lambda>uri ua. any_in xss_patterns uri, ''xss'', ''high''),
      (\<lambda>uri ua. contains uri ''../'' \<or> contains uri [CHR ''.'', CHR ''.'', CHR 0x5C],
         ''directory_traversal'', ''medium''),
      (\<lambda>uri ua. any_in admin_patterns uri, ''admin_access'', ''medium''),
      (\<lambda>uri ua. any_in scanner_agents ua, ''automated_scan'', ''medium''),
      (\<lambda>uri ua. contains uri ''include'' \<or> contains uri ''require'', ''file_inclusion'', ''high''),
      (\<lambda>uri ua. any_in cmd_patterns uri, ''command_injection'', ''high'')]"

text \<open>The order of severities: critical above high above medium above low.\<close>

definition severity_rank :: "string \<Rightarrow> nat" where
  "severity_rank l =
     (if l = ''critical'' then 3 else if l = ''high'' then 2 else if l = ''medium'' then 1 else 0)"

text \<open>
  \<open>fake_login\<close> on a POST: the form fields default to the empty string, the event is
  logged, and the page returned is the fixed "Login Failed" page (\<open>False\<close> here: the
  login is refused). A GET returns the form and logs nothing.
\<close>

definition fake_login_post :: "string \<Rightarrow> (string \<times> string) list \<Rightarrow> http_honeypot \<Rightarrow> bool \<times> http_honeypot" where
  "fake_login_post client_ip form h =
     (let username = (case map_of form ''username'' of None \<Rightarrow> [] | Some u \<Rightarrow> u);
          password = (case map_of form ''password'' of None \<Rightarrow> [] | Some p \<Rightarrow> p);
          login_event =
            [(''event_type'', PStr ''login_attempt''),
             (''source_ip'', PStr client_ip),
             (''username'', PStr username),
             (''password'', PStr password),
             (''success'', PBool False),
             (''attack_type'', PStr ''credential_stuffing'')]
      in (False, http_log_event login_event h))"

section \<open>Telnet honeypot (honeypots/telnet/telnet\_honeypot.py)\<close>

text \<open>
  The peer and the network are the environment of a connection. \<open>tn_recvs\<close> lists what
  the coming calls of \<open>recv(1)\<close> will produce: one byte, the empty result of a closed
  connection, a \<open>socket.timeout\<close>, or another exception; when the list is used up the
  peer has closed. \<open>tn_sends\<close> lists whether the coming calls of \<open>send\<close> return
  (\<open>True\<close>) or raise; when the list is used up they return. \<open>tn_trace\<close> records, in
  order, what the handler does that can be observed: the data it sends, the events it
  hands to \<open>log_event\<close>, its sleeping, and the closing of the socket.
\<close>

datatype recv_result = Chunk char | Eof | Timeout | SockError

datatype action = Send string | Close | Log pydict | Sleep nat

record telnet =
  tn_port :: int
  tn_total_connections :: nat
  tn_login_attempts :: nat
  tn_unique_ips :: "string set"
  tn_common_usernames :: "(string \<times> nat) list"
  tn_common_passwords :: "(string \<times> nat) list"
  tn_commands_executed :: "(string \<times> nat) list"
  tn_recvs :: "recv_result list"
  tn_sends :: "bool list"
  tn_trace :: "action list"

definition tn_log_event :: "pydict \<Rightarrow> telnet \<Rightarrow> telnet" where
  "tn_log_event event_data s = s\<lparr>tn_trace := tn_trace s @ [Log (stamp ''telnet'' event_data)]\<rparr>"

definition tn_recv :: "telnet \<Rightarrow> recv_result \<times> telnet" where
  "tn_recv s = (case tn_recvs s of [] \<Rightarrow> (Eof, s) | r # rs \<Rightarrow> (r, s\<lparr>tn_recvs := rs\<rparr>))"

text \<open>The result of a \<open>send\<close> is \<open>False\<close> when the call raises.\<close>

definition tn_send :: "string \<Rightarrow> telnet \<Rightarrow> bool \<times> telnet" where
  "tn_send data s =
     (case tn_sends s of
        [] \<Rightarrow> (True, s\<lparr>tn_trace := tn_trace s @ [Send data]\<rparr>)
      | ok # rest \<Rightarrow>
          if ok then (True, s\<lparr>tn_sends := rest, tn_trace := tn_trace s @ [Send data]\<rparr>)
          else (False, s\<lparr>tn_sends := rest\<rparr>))"

text \<open>\<open>client_socket.close()\<close> inside \<open>try\<close> with a bare \<open>except: pass\<close>.\<close>

definition tn_close :: "telnet \<Rightarrow> telnet" where
  "tn_close s = s\<lparr>tn_trace := tn_trace s @ [Close]\<rparr>"

definition tn_sleep :: "nat \<Rightarrow> telnet \<Rightarrow> telnet" where
  "tn_sleep n s = s\<lparr>tn_trace := tn_trace s @ [Sleep n]\<rparr>"

text \<open>
  The \<open>while True\<close> loop of \<open>get_input\<close>, with the buffer \<open>data\<close>. The result is
  \<open>None\<close> when an exception leaves the loop (both \<open>except\<close> clauses return \<open>None\<close>),
  and the buffer when the loop breaks.
\<close>

function get_input_loop :: "bool \<Rightarrow> string \<Rightarrow> telnet \<Rightarrow> string option \<times> telnet" where
  "get_input_loop hide data s =
     (case tn_recv s of
        (Eof, s1) \<Rightarrow> (Some data, s1)
      | (Timeout, s1) \<Rightarrow> (None, s1)
      | (SockError, s1) \<Rightarrow> (None, s1)
      | (Chunk chunk, s1) \<Rightarrow>
          if chunk = CHR 0x0D \<or> chunk = CHR 0x0A then (Some data, s1)
          else if chunk = CHR 0x08 \<or> chunk = CHR 0x7F then
            (if data \<noteq> [] then
               (if \<not> hide then
                  (case tn_send [CHR 0x08, CHR '' '', CHR 0x08] s1 of
                     (False, s2) \<Rightarrow> (None, s2)
                   | (True, s2) \<Rightarrow> get_input_loop hide (butlast data) s2)
                else get_input_loop hide (butlast data) s1)
             else get_input_loop hide data s1)
          else
            (case tn_send (if \<not> hide then [chunk] else ''*'') s1 of
               (False, s2) \<Rightarrow> (None, s2)
             | (True, s2) \<Rightarrow> get_input_loop hide (data @ [chunk]) s2))"
  by pat_completeness auto
termination
  by (relation "measure (\<lambda>(hide, data, s). length (tn_recvs s))")
     (auto simp: tn_recv_def tn_send_def split: list.splits if_splits)

declare get_input_loop.simps [simp del]

text \<open>
  \<open>data.decode('utf-8', errors='ignore')\<close> on the code points the model holds. A byte
  below 0x80 decodes to itself. The lead bytes 0xC2 and 0xC3 followed by a continuation
  byte (0x80 to 0xBF) decode to the code points U+0080 to U+00FF. Every other byte from
  0x80 on is dropped, one byte at a time, as \<open>ignore\<close> does with a byte that starts no
  well-formed sequence and with a truncated sequence. A well-formed sequence for a code
  point from U+0100 on has no \<open>char\<close>: such input is outside the model, which drops the
  bytes of the sequence.
\<close>

fun decode_ignore :: "string \<Rightarrow> string" where
  "decode_ignore [] = []"
| "decode_ignore [b] = (if (of_char b :: nat) < 128 then [b] else [])"
| "decode_ignore (b # c # bs) =
     (let nb = (of_char b :: nat); nc = (of_char c :: nat)
      in if nb < 128 then b # decode_ignore (c # bs)
         else if (nb = 194 \<or> nb = 195) \<and> 128 \<le> nc \<and> nc < 192
         then char_of ((nb - 192) * 64 + (nc - 128)) # decode_ignore bs
         else decode_ignore (c # bs))"

text \<open>
  \<open>str.encode()\<close>, which encodes in UTF-8: a code point below 0x80 is one byte, a code
  point from U+0080 to U+00FF is a lead byte 0xC2 or 0xC3 and a continuation byte.
\<close>

definition encode_char :: "char \<Rightarrow> string" where
  "encode_char c =
     (let n = (of_char c :: nat)
      in if n < 128 then [c] else [char_of (192 + n div 64), char_of (128 + n mod 64)])"

definition py_encode :: "string \<Rightarrow> string" where
  "py_encode s = concat (map encode_char s)"

text \<open>
  \<open>get_input\<close>: the loop, then decoding and \<open>strip\<close>. Its parameter \<open>prompt\<close> is not
  used by the source and is left out; \<open>settimeout(30)\<close> is what makes a silent peer show
  as \<open>Timeout\<close> in \<open>tn_recvs\<close>.
\<close>

definition get_input :: "bool \<Rightarrow> telnet \<Rightarrow> string option \<times> telnet" where
  "get_input hide s =
     (case get_input_loop hide [] s of
        (None, s1) \<Rightarrow> (None, s1)
      | (Some data, s1) \<Rightarrow> (Some (py_strip (decode_ignore data)), s1))"

definition iot_credentials :: "(string \<times> string) list" where
  "iot_credentials =
     [(''admin'', ''admin''), (''root'', ''root''), (''admin'', ''password''),
      (''root'', ''password''), (''admin'', ''123456''), (''root'', ''123456''),
      (''user'', ''user''), (''guest'', ''guest''), (''support'', ''support''),
      (''admin'', []), (''root'', []), ([], []), (''admin'', ''1234''),
      (''root'', ''toor''), (''admin'', ''pass'')]"

definition handle_login_attempt :: "string \<Rightarrow> string \<Rightarrow> string \<Rightarrow> telnet \<Rightarrow> telnet" where
  "handle_login_attempt client_ip username password s =
     (let s1 = s\<lparr>tn_login_attempts := tn_login_attempts s + 1,
                tn_common_usernames := bump username (tn_common_usernames s),
                tn_common_passwords := bump password (tn_common_passwords s)\<rparr>;
          (attack_type, threat_level) = (''brute_force'', ''medium'');
          (attack_type, threat_level) =
            (if (username, password) \<in> set iot_credentials
             then (''iot_botnet'', ''high'')
             else (attack_type, threat_level));
          event_data =
            [(''event_type'', PStr ''login_attempt''),
             (''source_ip'', PStr client_ip),
             (''username'', PStr username),
             (''password'', PStr password),
             (''success'', PBool False),
             (''attack_type'', PStr attack_type),
             (''threat_level'', PStr threat_level)]
      in tn_log_event event_data s1)"

definition crlf :: string where
  "crlf = [CHR 0x0D, CHR 0x0A]"

definition simulate_command_response :: "string \<Rightarrow> string" where
  "simulate_command_response command =
     (let cmd = py_strip (py_lower command)
      in if cmd \<in> set [''ls'', ''dir'']
         then crlf @ ''bin  boot  dev  etc  home  lib  media  mnt  opt  proc  root  run  sbin  srv  sys  tmp  usr  var'' @ crlf
         else if cmd = ''pwd'' then crlf @ ''/home/user'' @ crlf
         else if cmd = ''whoami'' then crlf @ ''user'' @ crlf
         else if cmd = ''id'' then crlf @ ''uid=1000(user) gid=1000(user) groups=1000(user)'' @ crlf
         else if startswith cmd ''cat '' then crlf @ ''cat: permission denied'' @ crlf
         else if cmd = ''ps''
         then crlf @ ''  PID TTY          TIME CMD'' @ crlf @ '' 1234 pts/0    00:00:00 bash'' @ crlf
         else if cmd = ''uname -a''
         then crlf @ ''Linux honeypot 5.4.0-74-generic #83-Ubuntu SMP Sat May 8 02:35:39 UTC 2021 x86_64 x86_64 x86_64 GNU/Linux'' @ crlf
         else if cmd \<in> set [''exit'', ''quit'', ''logout''] then crlf @ ''logout'' @ crlf
         else crlf @ cmd @ '': command not found'' @ crlf)"

definition shell_prompt :: "string \<Rightarrow> string" where
  "shell_prompt username = username @ ''@honeypot:~$ ''"

definition command_event :: "string \<Rightarrow> string \<Rightarrow> string \<Rightarrow> pydict" where
  "command_event client_ip username command =
     [(''event_type'', PStr ''command_execution''),
      (''source_ip'', PStr client_ip),
      (''username'', PStr username),
      (''command'', PStr command),
      (''attack_type'', PStr ''command_injection'')]"

text \<open>
  The \<open>while True\<close> loop of \<open>simulate_shell\<close>. \<open>not command\<close> holds of \<open>None\<close> and of
  the empty string. A \<open>send\<close> that raises leaves the loop through the \<open>except\<close> clause
  of \<open>simulate_shell\<close>, which logs the error and returns.
\<close>

function shell_loop :: "string \<Rightarrow> string \<Rightarrow> telnet \<Rightarrow> telnet" where
  "shell_loop client_ip username s =
     (case get_input False s of
        (None, s1) \<Rightarrow> s1
      | (Some command, s1) \<Rightarrow>
          if command = [] then s1
          else
            (let s2 = s1\<lparr>tn_commands_executed := bump command (tn_commands_executed s1)\<rparr>;
                 s3 = tn_log_event (command_event client_ip username command) s2
             in case tn_send (py_encode (simulate_command_response command)) s3 of
                  (False, s4) \<Rightarrow> s4
                | (True, s4) \<Rightarrow>
                    (case tn_send (py_encode (shell_prompt username)) s4 of
                       (False, s5) \<Rightarrow> s5
                     | (True, s5) \<Rightarrow>
                         if length (py_split command) > 10 then s5
                         else shell_loop client_ip username s5)))"
  by pat_completeness auto
termination
proof -
  have le: "length (tn_recvs (snd (get_input_loop hide data t))) \<le> length (tn_recvs t)"
    for hide data t
  proof (induction "tn_recvs t" arbitrary: hide data t)
    case Nil
    then show ?case
      by (subst get_input_loop.simps) (simp add: tn_recv_def)
  next
    case (Cons r rs)
    have ih: "length (tn_recvs (snd (get_input_loop h d u))) \<le> Suc (length rs)"
      if "tn_recvs u = rs" for h d u
      using Cons.hyps(1) [of u h d] that by simp
    note eq = Cons.hyps(2) [symmetric]
    from eq have rv: "tn_recv t = (r, t\<lparr>tn_recvs := rs\<rparr>)"
      by (simp add: tn_recv_def)
    from eq have len: "length (tn_recvs t) = Suc (length rs)"
      by simp
    show ?case
      unfolding len
      by (subst get_input_loop.simps)
         (auto simp: rv tn_send_def intro!: ih split: recv_result.split list.split)
  qed
  have key: "length (tn_recvs y) < length (tn_recvs s)"
    if "(Some c, y) = get_input False s" "c \<noteq> []" for c y s
  proof (cases "tn_recvs s")
    case Nil
    then have "get_input False s = (Some [], s)"
      unfolding get_input_def
      by (subst get_input_loop.simps) (simp add: tn_recv_def py_strip_def)
    with that show ?thesis by simp
  next
    case (Cons r rs)
    then have rv: "tn_recv s = (r, s\<lparr>tn_recvs := rs\<rparr>)"
      by (simp add: tn_recv_def)
    have ih: "length (tn_recvs (snd (get_input_loop False d u))) \<le> length rs"
      if "tn_recvs u = rs" for d u
      using le [of False d u] that by simp
    have "length (tn_recvs (snd (get_input_loop False [] s))) \<le> length rs"
      by (subst get_input_loop.simps)
         (auto simp: rv tn_send_def intro!: ih split: recv_result.split list.split)
    moreover have "y = snd (get_input_loop False [] s)"
      using that(1) by (auto simp: get_input_def split: prod.splits option.splits)
    ultimately show ?thesis by (simp add: Cons)
  qed
  show ?thesis
    apply (relation "measure (\<lambda>(client_ip, username, s). length (tn_recvs s))")
     apply simp
    apply (auto simp: tn_send_def tn_log_event_def dest!: key split: list.splits if_splits)
    done
qed

declare shell_loop.simps [simp del]


definition simulate_shell :: "string \<Rightarrow> string \<Rightarrow> telnet \<Rightarrow> telnet" where
  "simulate_shell client_ip username s =
     (case tn_send (py_encode (shell_prompt username)) s of
        (False, s1) \<Rightarrow> s1
      | (True, s1) \<Rightarrow> shell_loop client_ip username s1)"

definition connection_event :: "string \<Rightarrow> int \<Rightarrow> int \<Rightarrow> pydict" where
  "connection_event client_ip source_port destination_port =
     [(''event_type'', PStr ''connection''),
      (''source_ip'', PStr client_ip),
      (''source_port'', PInt source_port),
      (''destination_port'', PInt destination_port),
      (''protocol'', PStr ''telnet'')]"

definition disconnect_event :: "string \<Rightarrow> pydict" where
  "disconnect_event client_ip =
     [(''event_type'', PStr ''disconnect''),
      (''source_ip'', PStr client_ip),
      (''duration'', PStr ''unknown'')]"

text \<open>
  The body of the \<open>try\<close> statement of \<open>handle_client\<close>. A \<open>send\<close> that raises
  leaves it through \<open>except Exception\<close>, which logs the error. \<open>if username:\<close> and
  \<open>if password:\<close> are false of \<open>None\<close> and of the empty string.
\<close>

definition handle_client_body :: "string \<Rightarrow> telnet \<Rightarrow> telnet" where
  "handle_client_body client_ip s =
     (case tn_send (''Ubuntu 20.04.3 LTS'' @ crlf @ ''login: '') s of
        (False, s1) \<Rightarrow> s1
      | (True, s1) \<Rightarrow>
          (case get_input False s1 of
             (None, s2) \<Rightarrow> s2
           | (Some username, s2) \<Rightarrow>
               if username = [] then s2
               else
                 (case tn_send ''Password: '' s2 of
                    (False, s3) \<Rightarrow> s3
                  | (True, s3) \<Rightarrow>
                      (case get_input True s3 of
                         (None, s4) \<Rightarrow> s4
                       | (Some password, s4) \<Rightarrow>
                           if password = [] then s4
                           else
                             (let s5 = handle_login_attempt client_ip username password s4
                              in case tn_send (crlf @ ''Login incorrect'' @ crlf) s5 of
                                   (False, s6) \<Rightarrow> s6
                                 | (True, s6) \<Rightarrow>
                                     simulate_shell client_ip username (tn_sleep 2 s6))))))"

text \<open>
  \<open>handle_client\<close>: the statistics and the connection event, the \<open>try\<close> body, and the
  \<open>finally\<close> clause, which closes the socket and logs the disconnect event.
\<close>

definition handle_client :: "string \<times> int \<Rightarrow> telnet \<Rightarrow> telnet" where
  "handle_client client_addr s =
     (let client_ip = fst client_addr;
          s1 = s\<lparr>tn_total_connections := tn_total_connections s + 1,
                  tn_unique_ips := insert client_ip (tn_unique_ips s)\<rparr>;
          s2 = tn_log_event (connection_event client_ip (snd client_addr) (tn_port s1)) s1;
          s3 = handle_client_body client_ip s2;
          s4 = tn_close s3
      in tn_log_event (disconnect_event client_ip) s4)"

text \<open>
  The honeypot as \<open>__init__\<close> leaves it (port 23, empty statistics), facing a connection
  whose environment is given.
\<close>

definition telnet_init :: "recv_result list \<Rightarrow> bool list \<Rightarrow> telnet" where
  "telnet_init rs ss =
     \<lparr>tn_port = 23, tn_total_connections = 0, tn_login_attempts = 0, tn_unique_ips = {},
       tn_common_usernames = [], tn_common_passwords = [], tn_commands_executed = [],
       tn_recvs = rs, tn_sends = ss, tn_trace = []\<rparr>"


text \<open>
  The line editor as the specification words it: a backspace or DEL byte removes the last
  buffered byte (and does nothing to an empty buffer), any other byte is appended.
\<close>

definition is_erase :: "char \<Rightarrow> bool" where
  "is_erase c = (c = CHR 0x08 \<or> c = CHR 0x7F)"

definition is_eol :: "char \<Rightarrow> bool" where
  "is_eol c = (c = CHR 0x0D \<or> c = CHR 0x0A)"

fun spec_line :: "string \<Rightarrow> string \<Rightarrow> string" where
  "spec_line data [] = data"
| "spec_line data (c # cs) =
     (if is_erase c then spec_line (butlast data) cs else spec_line (data @ [c]) cs)"

text \<open>
  The echo as the specification words it: in password mode one \<open>*\<close> for each accepted
  byte and nothing for a deleted byte; in plain mode the byte itself for each accepted
  byte and backspace, space, backspace for each byte deleted from the buffer.
\<close>

fun spec_echo :: "bool \<Rightarrow> string \<Rightarrow> string \<Rightarrow> action list" where
  "spec_echo hide data [] = []"
| "spec_echo hide data (c # cs) =
     (if is_erase c
      then (if data \<noteq> [] \<and> \<not> hide then [Send [CHR 0x08, CHR '' '', CHR 0x08]] else [])
             @ spec_echo hide (butlast data) cs
      else Send (if hide then ''*'' else [c]) # spec_echo hide (data @ [c]) cs)"

text \<open>
  An action is quiet when it neither closes the socket nor logs a disconnect event; one
  state extends another quietly when its trace is the other's followed by quiet actions.
\<close>

definition quiet :: "action \<Rightarrow> bool" where
  "quiet a = (case a of Close \<Rightarrow> False | Log e \<Rightarrow> event_type e \<noteq> ''disconnect'' | _ \<Rightarrow> True)"

definition quiet_ext :: "telnet \<Rightarrow> telnet \<Rightarrow> bool" where
  "quiet_ext s s' \<longleftrightarrow> (\<exists>mid. tn_trace s' = tn_trace s @ mid \<and> list_all quiet mid)"

text \<open>The login events in a list of actions.\<close>

definition login_events :: "action list \<Rightarrow> pydict list" where
  "login_events tr =
     concat (map (\<lambda>a. case a of Log e \<Rightarrow>
        (if event_type e = ''login_attempt'' \<or> event_type e = ''auth_attempt'' then [e] else [])
      | _ \<Rightarrow> []) tr)"

definition is_disconnect :: "action \<Rightarrow> bool" where
  "is_disconnect a = (case a of Log e \<Rightarrow> event_type e = ''disconnect'' | _ \<Rightarrow> False)"

section \<open>FTP and SSH honeypots (honeypots/ftp/ftp\_honeypot.py, honeypots/ssh/ssh\_honeypot.py)\<close>

record ftp_honeypot =
  ftp_login_attempts :: nat
  ftp_common_usernames :: "(string \<times> nat) list"
  ftp_common_passwords :: "(string \<times> nat) list"
  ftp_events :: "pydict list"

definition ftp_log_event :: "pydict \<Rightarrow> ftp_honeypot \<Rightarrow> ftp_honeypot" where
  "ftp_log_event event_data h = h\<lparr>ftp_events := ftp_events h @ [stamp ''ftp'' event_data]\<rparr>"

text \<open>
  \<open>HoneypotAuthorizer.validate_authentication\<close>; \<open>client_ip\<close> is \<open>handler.remote_ip\<close>.
  It always ends in \<open>raise Exception("Authentication failed")\<close>.
\<close>

definition validate_authentication ::
  "string \<Rightarrow> string \<Rightarrow> string \<Rightarrow> ftp_honeypot \<Rightarrow> (py_error + unit) \<times> ftp_honeypot" where
  "validate_authentication username password client_ip h =
     (let h1 = h\<lparr>ftp_login_attempts := ftp_login_attempts h + 1,
                ftp_common_usernames := bump username (ftp_common_usernames h),
                ftp_common_passwords := bump password (ftp_common_passwords h)\<rparr>;
          event_data =
            [(''event_type'', PStr ''login_attempt''),
             (''source_ip'', PStr client_ip),
             (''username'', PStr username),
             (''password'', PStr password),
             (''success'', PBool False),
             (''attack_type'', PStr ''brute_force'')]
      in (Inl (Exception ''Authentication failed''), ftp_log_event event_data h1))"

record ssh_honeypot =
  ssh_auth_attempts :: nat
  ssh_unique_ips :: "string set"
  ssh_common_usernames :: "(string \<times> nat) list"
  ssh_common_passwords :: "(string \<times> nat) list"
  ssh_events :: "pydict list"

definition ssh_log_event :: "pydict \<Rightarrow> ssh_honeypot \<Rightarrow> ssh_honeypot" where
  "ssh_log_event event_data h = h\<lparr>ssh_events := ssh_events h @ [stamp ''ssh'' event_data]\<rparr>"

definition handle_auth :: "string \<Rightarrow> string \<Rightarrow> string \<Rightarrow> ssh_honeypot \<Rightarrow> bool \<times> ssh_honeypot" where
  "handle_auth username password client_ip h =
     (let h1 = h\<lparr>ssh_auth_attempts := ssh_auth_attempts h + 1,
                ssh_unique_ips := insert client_ip (ssh_unique_ips h),
                ssh_common_usernames := bump username (ssh_common_usernames h),
                ssh_common_passwords := bump password (ssh_common_passwords h)\<rparr>;
          event_data =
            [(''event_type'', PStr ''auth_attempt''),
             (''source_ip'', PStr client_ip),
             (''username'', PStr username),
             (''password'', PStr password),
             (''success'', PBool False),
             (''user_agent'', PStr ''ssh_client''),
             (''attack_type'', PStr ''brute_force'')]
      in (False, ssh_log_event event_data h1))"

text \<open>The two authentication results of paramiko that the source names.\<close>

datatype auth_result = AUTH_SUCCESSFUL | AUTH_FAILED

definition check_auth_password ::
  "string \<Rightarrow> string \<Rightarrow> string \<Rightarrow> ssh_honeypot \<Rightarrow> auth_result \<times> ssh_honeypot" where
  "check_auth_password username password client_ip h =
     (AUTH_FAILED, snd (handle_auth username password client_ip h))"

section \<open>Properties of the alert service\<close>

lemma delete_as_filter: "AList.delete k al = filter (\<lambda>(k', v). k' \<noteq> k) al"
  by (induction al) (auto simp: AList.delete_eq)

lemma fold_delete_filter:
  "fold AList.delete ks al = filter (\<lambda>(k, v). k \<notin> set ks) al"
proof (induction ks arbitrary: al)
  case Nil
  then show ?case by simp
next
  case (Cons k ks)
  have "fold AList.delete (k # ks) al = fold AList.delete ks (AList.delete k al)"
    by simp
  also have "\<dots> = filter (\<lambda>(k', v). k' \<notin> set ks) (AList.delete k al)"
    by (rule Cons.IH)
  also have "\<dots> = filter (\<lambda>(k', v). k' \<notin> set ks) (filter (\<lambda>(k', v). k' \<noteq> k) al)"
    by (simp only: delete_as_filter)
  also have "\<dots> = filter (\<lambda>(k', v). k' \<notin> set (k # ks)) al"
    by (induction al) auto
  finally show ?case .
qed

lemma distinct_fst_filter_keys:
  assumes "distinct (map fst al)" "(k, v) \<in> set al"
  shows "k \<in> set (map fst (filter P al)) \<longleftrightarrow> P (k, v)"
proof
  assume "k \<in> set (map fst (filter P al))"
  then obtain v' where v': "(k, v') \<in> set al" "P (k, v')"
    by fastforce
  from assms(1) v'(1) assms(2) have "v' = v"
    by (rule eq_key_imp_eq_value)
  with v'(2) show "P (k, v)" by simp
next
  assume "P (k, v)"
  with assms(2) have "(k, v) \<in> set (filter P al)" by simp
  then show "k \<in> set (map fst (filter P al))" by force
qed

lemma cleanup_sent_alerts:
  "sent_alerts (cleanup_old_alerts clk s) =
     fold AList.delete
       (map fst (filter (\<lambda>(key, timestamp). timestamp < clk (ticks s) - hours24) (sent_alerts s)))
       (sent_alerts s)"
  by (simp add: cleanup_old_alerts_def now_def)

lemma cleanup_filter:
  assumes "distinct (map fst (sent_alerts s))"
  shows "sent_alerts (cleanup_old_alerts clk s) =
         filter (\<lambda>(key, timestamp). \<not> clk (ticks s) - timestamp > hours24) (sent_alerts s)"
proof -
  define al where "al = sent_alerts s"
  define c where "c = clk (ticks s) - hours24"
  define P :: "alert_key \<times> time \<Rightarrow> bool" where "P = (\<lambda>(key, timestamp). timestamp < c)"
  have d: "distinct (map fst al)" using assms by (simp add: al_def)
  have "filter (\<lambda>(k, v). k \<notin> set (map fst (filter P al))) al = filter (\<lambda>x. \<not> P x) al"
  proof (rule filter_cong[OF refl])
    fix x assume x: "x \<in> set al"
    obtain k v where kv: "x = (k, v)" by (cases x)
    have "k \<in> set (map fst (filter P al)) \<longleftrightarrow> P (k, v)"
      using x unfolding kv by (rule distinct_fst_filter_keys[OF d])
    then show "(case x of (k, v) \<Rightarrow> k \<notin> set (map fst (filter P al))) = (\<not> P x)"
      unfolding kv by simp
  qed
  moreover have "(\<lambda>x. \<not> P x) = (\<lambda>(key, timestamp). \<not> clk (ticks s) - timestamp > hours24)"
    unfolding P_def c_def by (rule ext) (simp add: case_prod_unfold, linarith)
  moreover have "sent_alerts (cleanup_old_alerts clk s) = fold AList.delete (map fst (filter P al)) al"
    unfolding P_def c_def al_def by (rule cleanup_sent_alerts)
  ultimately show ?thesis
    by (simp only: fold_delete_filter al_def)
qed


lemma hour_label_mono: "a \<le> b \<Longrightarrow> hour_label a \<le> hour_label b"
  by (simp add: hour_label_def hour_us_def zdiv_mono1)

lemma hour_label_next: "hour_label (a + hour_us) = hour_label a + 1"
  by (simp add: hour_label_def hour_us_def)

text \<open>
  An entry that a cleanup at reading \<open>t\<close> evicts names an hour before the hour of every
  reading \<open>c\<close> that is at most the largest step back behind \<open>t\<close>.
\<close>

lemma evicted_hour_is_past:
  assumes "ts < t - hours24" "t \<le> c + max_step_back"
  shows "hour_label (ts + max_step_back) < hour_label c"
proof -
  have "ts + max_step_back + hour_us \<le> c"
    using assms by (simp add: hours24_def hour_us_def max_step_back_def)
  then have "hour_label (ts + max_step_back + hour_us) \<le> hour_label c"
    by (rule hour_label_mono)
  then show ?thesis
    by (simp add: hour_label_next)
qed

lemma alert_once_unfold:
  "alert_once clk name dim subject severity v ips s =
     (if map_of (sent_alerts s) (name, dim, hour_label (clk (ticks s))) = None
      then s\<lparr>dispatched := dispatched s @
               [\<lparr>n_key = (name, dim, hour_label (clk (ticks s))), n_subject = subject,
                 n_severity = severity, n_value = v, n_ips = ips\<rparr>],
             ticks := Suc (Suc (ticks s)),
             sent_alerts := AList.update (name, dim, hour_label (clk (ticks s)))
                              (clk (Suc (ticks s))) (sent_alerts s)\<rparr>
      else s\<lparr>ticks := Suc (ticks s)\<rparr>)"
  by (simp add: alert_once_def now_def send_alert_def Let_def)

lemma alert_once_thresholds:
  "thresholds (alert_once clk name dim subject severity v ips s) = thresholds s"
  by (simp add: alert_once_unfold)

lemma set_update_subset_insert:
  "set (AList.update k v al) \<subseteq> insert (k, v) (set al)"
  by (induction al) auto

lemma dedup_inv_later:
  assumes "dedup_inv clk s" "ticks s \<le> n"
  shows "dedup_inv clk (s\<lparr>ticks := n\<rparr>)"
proof -
  have "\<forall>k \<in> set (keys_sent s).
          k \<in> fst ` set (sent_alerts s) \<or> (\<forall>j \<ge> n. snd (snd k) < hour_label (clk j))"
  proof
    fix k assume "k \<in> set (keys_sent s)"
    with assms(1) have "k \<in> fst ` set (sent_alerts s) \<or>
        (\<forall>j \<ge> ticks s. snd (snd k) < hour_label (clk j))"
      unfolding dedup_inv_def by blast
    with assms(2) show "k \<in> fst ` set (sent_alerts s) \<or>
        (\<forall>j \<ge> n. snd (snd k) < hour_label (clk j))"
      by (meson le_trans)
  qed
  with assms(1) show ?thesis
    unfolding dedup_inv_def keys_sent_def by simp
qed

lemma alert_once_inv:
  assumes st: "steady clk" and inv: "dedup_inv clk s"
  shows "dedup_inv clk (alert_once clk name dim subject severity v ips s)"
proof (cases "map_of (sent_alerts s) (name, dim, hour_label (clk (ticks s))) = None")
  case False
  then have "alert_once clk name dim subject severity v ips s = s\<lparr>ticks := Suc (ticks s)\<rparr>"
    by (simp only: alert_once_unfold if_False)
  then show ?thesis
    using dedup_inv_later [OF inv, of "Suc (ticks s)"] by simp
next
  case True
  define key where "key = (name, dim, hour_label (clk (ticks s)))"
  define s' where "s' = alert_once clk name dim subject severity v ips s"
  have fresh: "key \<notin> fst ` set (sent_alerts s)"
    using True by (simp add: key_def map_of_eq_None_iff)
  have ks: "keys_sent s' = keys_sent s @ [key]"
    using True by (simp add: s'_def alert_once_unfold keys_sent_def key_def)
  have sa: "sent_alerts s' = AList.update key (clk (Suc (ticks s))) (sent_alerts s)"
    using True by (simp add: s'_def alert_once_unfold key_def)
  have tk: "ticks s' = Suc (Suc (ticks s))"
    using True by (simp add: s'_def alert_once_unfold)
  have dom: "fst ` set (sent_alerts s') = insert key (fst ` set (sent_alerts s))"
    by (simp add: sa dom_update)
  have "clk (ticks s) \<le> clk (Suc (ticks s)) + max_step_back"
    using st unfolding steady_def by simp
  then have h1: "hour_label (clk (ticks s)) \<le> hour_label (clk (Suc (ticks s)) + max_step_back)"
    by (rule hour_label_mono)
  have notin: "key \<notin> set (keys_sent s)"
  proof
    assume "key \<in> set (keys_sent s)"
    with inv have "key \<in> fst ` set (sent_alerts s) \<or>
        (\<forall>j \<ge> ticks s. snd (snd key) < hour_label (clk j))"
      unfolding dedup_inv_def by blast
    with fresh have "snd (snd key) < hour_label (clk (ticks s))" by blast
    then show False by (simp add: key_def)
  qed
  have c1: "distinct (keys_sent s')"
    using inv notin by (simp add: ks dedup_inv_def)
  have c2: "distinct (map fst (sent_alerts s'))"
    using inv by (simp add: sa dedup_inv_def distinct_update)
  have c3: "fst ` set (sent_alerts s') \<subseteq> set (keys_sent s')"
    using inv by (auto simp: dom ks dedup_inv_def)
  have c4: "\<forall>k \<in> set (keys_sent s').
        k \<in> fst ` set (sent_alerts s') \<or> (\<forall>j \<ge> ticks s'. snd (snd k) < hour_label (clk j))"
  proof
    fix k assume "k \<in> set (keys_sent s')"
    then consider "k = key" | "k \<in> set (keys_sent s)" by (auto simp: ks)
    then show "k \<in> fst ` set (sent_alerts s') \<or>
        (\<forall>j \<ge> ticks s'. snd (snd k) < hour_label (clk j))"
    proof cases
      case 1
      then show ?thesis by (simp add: dom)
    next
      case 2
      with inv have "k \<in> fst ` set (sent_alerts s) \<or>
          (\<forall>j \<ge> ticks s. snd (snd k) < hour_label (clk j))"
        unfolding dedup_inv_def by blast
      then show ?thesis by (auto simp: dom tk)
    qed
  qed
  have c5: "\<forall>(k, ts) \<in> set (sent_alerts s'). snd (snd k) \<le> hour_label (ts + max_step_back)"
  proof -
    have "set (sent_alerts s') \<subseteq> insert (key, clk (Suc (ticks s))) (set (sent_alerts s))"
      unfolding sa by (rule set_update_subset_insert)
    moreover have "snd (snd key) \<le> hour_label (clk (Suc (ticks s)) + max_step_back)"
      using h1 by (simp add: key_def)
    moreover have "\<forall>(k, ts) \<in> set (sent_alerts s). snd (snd k) \<le> hour_label (ts + max_step_back)"
      using inv unfolding dedup_inv_def by blast
    ultimately show ?thesis by blast
  qed
  show ?thesis
    using c1 c2 c3 c4 c5 unfolding s'_def[symmetric] dedup_inv_def by blast
qed

lemma cleanup_inv:
  assumes st: "steady clk" and inv: "dedup_inv clk s"
  shows "dedup_inv clk (cleanup_old_alerts clk s)"
proof -
  define s' where "s' = cleanup_old_alerts clk s"
  define t where "t = clk (ticks s)"
  have d: "distinct (map fst (sent_alerts s))" using inv by (simp add: dedup_inv_def)
  have sa: "sent_alerts s' = filter (\<lambda>(key, timestamp). \<not> t - timestamp > hours24) (sent_alerts s)"
    unfolding s'_def t_def by (rule cleanup_filter[OF d])
  have ks: "keys_sent s' = keys_sent s"
    by (simp add: s'_def cleanup_old_alerts_def now_def keys_sent_def)
  have tk: "ticks s' = Suc (ticks s)"
    by (simp add: s'_def cleanup_old_alerts_def now_def)
  have later: "t \<le> clk j + max_step_back" if "ticks s' \<le> j" for j
    using st that unfolding steady_def t_def tk by simp
  have c1: "distinct (keys_sent s')" using inv by (simp add: ks dedup_inv_def)
  have c2: "distinct (map fst (sent_alerts s'))"
    unfolding sa using d by (rule distinct_map_filter)
  have c3: "fst ` set (sent_alerts s') \<subseteq> set (keys_sent s')"
    using inv by (auto simp: sa ks dedup_inv_def)
  have c5: "\<forall>(k, ts) \<in> set (sent_alerts s'). snd (snd k) \<le> hour_label (ts + max_step_back)"
    using inv by (auto simp: sa dedup_inv_def)
  have c4: "\<forall>k \<in> set (keys_sent s').
        k \<in> fst ` set (sent_alerts s') \<or> (\<forall>j \<ge> ticks s'. snd (snd k) < hour_label (clk j))"
  proof
    fix k assume "k \<in> set (keys_sent s')"
    then have k: "k \<in> set (keys_sent s)" by (simp add: ks)
    with inv have "k \<in> fst ` set (sent_alerts s) \<or>
        (\<forall>j \<ge> ticks s. snd (snd k) < hour_label (clk j))"
      unfolding dedup_inv_def by blast
    then show "k \<in> fst ` set (sent_alerts s') \<or>
        (\<forall>j \<ge> ticks s'. snd (snd k) < hour_label (clk j))"
    proof
      assume "\<forall>j \<ge> ticks s. snd (snd k) < hour_label (clk j)"
      then show ?thesis by (simp add: tk)
    next
      assume "k \<in> fst ` set (sent_alerts s)"
      then obtain ts where ts: "(k, ts) \<in> set (sent_alerts s)" by force
      show ?thesis
      proof (cases "t - ts > hours24")
        case False
        with ts have "(k, ts) \<in> set (sent_alerts s')" by (simp add: sa)
        then show ?thesis by force
      next
        case True
        have "snd (snd k) < hour_label (clk j)" if "ticks s' \<le> j" for j
        proof -
          have "ts < t - hours24" using True by simp
          then have "hour_label (ts + max_step_back) < hour_label (clk j)"
            using later [OF that] by (rule evicted_hour_is_past)
          moreover have "snd (snd k) \<le> hour_label (ts + max_step_back)"
            using inv ts unfolding dedup_inv_def by blast
          ultimately show ?thesis by simp
        qed
        then show ?thesis by blast
      qed
    qed
  qed
  show ?thesis
    using c1 c2 c3 c4 c5 unfolding s'_def[symmetric] dedup_inv_def by blast
qed

lemma check_high_volume_inv:
  "steady clk \<Longrightarrow> dedup_inv clk s \<Longrightarrow> dedup_inv clk (check_high_volume_attacks clk r s)"
  by (simp add: check_high_volume_attacks_def alert_once_inv split: option.split)

lemma check_unique_ips_inv:
  "steady clk \<Longrightarrow> dedup_inv clk s \<Longrightarrow> dedup_inv clk (check_unique_ips clk r s)"
  by (simp add: check_unique_ips_def alert_once_inv split: option.split)

lemma brute_force_buckets_inv:
  "steady clk \<Longrightarrow> dedup_inv clk s \<Longrightarrow> dedup_inv clk (brute_force_buckets clk bs s)"
  by (induction clk bs s rule: brute_force_buckets.induct) (simp_all add: alert_once_inv)

lemma check_brute_force_inv:
  "steady clk \<Longrightarrow> dedup_inv clk s \<Longrightarrow> dedup_inv clk (check_brute_force_attacks clk r s)"
  by (simp add: check_brute_force_attacks_def brute_force_buckets_inv split: option.split)

lemma check_iot_botnet_inv:
  "steady clk \<Longrightarrow> dedup_inv clk s \<Longrightarrow> dedup_inv clk (check_iot_botnet_activity clk r s)"
  by (simp add: check_iot_botnet_activity_def alert_once_inv split: option.split prod.split)

lemma exec_job_inv:
  "steady clk \<Longrightarrow> dedup_inv clk s \<Longrightarrow> dedup_inv clk (exec_job clk j s)"
  by (cases j)
     (simp_all add: run_checks_def cleanup_inv check_high_volume_inv check_unique_ips_inv
        check_brute_force_inv check_iot_botnet_inv)

lemma exec_jobs_inv:
  "steady clk \<Longrightarrow> dedup_inv clk s \<Longrightarrow> dedup_inv clk (exec_jobs clk js s)"
  unfolding exec_jobs_def by (induction js arbitrary: s) (simp_all add: exec_job_inv)

lemma init_inv: "dedup_inv clk (init_service th)"
  by (simp add: dedup_inv_def init_service_def keys_sent_def)

lemma brute_force_buckets_thresholds:
  "thresholds (brute_force_buckets clk bs s) = thresholds s"
  by (induction clk bs s rule: brute_force_buckets.induct) (simp_all add: alert_once_thresholds)

lemma exec_job_thresholds: "thresholds (exec_job clk j s) = thresholds s"
  by (cases j)
     (simp_all add: run_checks_def cleanup_old_alerts_def now_def check_high_volume_attacks_def
        check_unique_ips_def check_brute_force_attacks_def check_iot_botnet_activity_def
        alert_once_thresholds brute_force_buckets_thresholds split: option.split prod.split)

lemma exec_jobs_thresholds: "thresholds (exec_jobs clk js s) = thresholds s"
  unfolding exec_jobs_def by (induction js arbitrary: s) (simp_all add: exec_job_thresholds)

lemma alert_once_dispatched:
  assumes inv: "dedup_inv clk s"
  shows "dispatched (alert_once clk name dim subject severity v ips s) =
     (if (name, dim, hour_label (clk (ticks s))) \<in> set (keys_sent s) then dispatched s
      else dispatched s @
        [\<lparr>n_key = (name, dim, hour_label (clk (ticks s))), n_subject = subject,
          n_severity = severity, n_value = v, n_ips = ips\<rparr>])"
proof -
  define key where "key = (name, dim, hour_label (clk (ticks s)))"
  have "key \<in> set (keys_sent s) \<longleftrightarrow> map_of (sent_alerts s) key \<noteq> None"
  proof
    assume "key \<in> set (keys_sent s)"
    with inv have "key \<in> fst ` set (sent_alerts s) \<or>
        (\<forall>j \<ge> ticks s. snd (snd key) < hour_label (clk j))"
      unfolding dedup_inv_def by blast
    moreover have "\<not> snd (snd key) < hour_label (clk (ticks s))" by (simp add: key_def)
    ultimately have "key \<in> fst ` set (sent_alerts s)" by blast
    then show "map_of (sent_alerts s) key \<noteq> None" by (simp add: map_of_eq_None_iff)
  next
    assume "map_of (sent_alerts s) key \<noteq> None"
    then have "key \<in> fst ` set (sent_alerts s)" by (simp add: map_of_eq_None_iff)
    with inv show "key \<in> set (keys_sent s)" unfolding dedup_inv_def by blast
  qed
  then show ?thesis
    unfolding key_def by (simp add: alert_once_unfold)
qed

lemma alert_once_ticks: "ticks s < ticks (alert_once clk name dim subject severity v ips s)"
  by (simp add: alert_once_unfold)

lemma alert_once_keys_mono:
  "set (keys_sent s) \<subseteq> set (keys_sent (alert_once clk name dim subject severity v ips s))"
  by (auto simp: alert_once_unfold keys_sent_def)

lemma alert_once_key_sent:
  assumes "dedup_inv clk s"
  shows "(name, dim, hour_label (clk (ticks s)))
           \<in> set (keys_sent (alert_once clk name dim subject severity v ips s))"
  using alert_once_dispatched [OF assms, of name dim subject severity v ips]
  by (auto simp: keys_sent_def)

lemma brute_force_buckets_ticks: "ticks s \<le> ticks (brute_force_buckets clk bs s)"
proof (induction clk bs s rule: brute_force_buckets.induct)
  case (1 clk s)
  then show ?case by simp
next
  case (2 clk ip attempt_count buckets s)
  show ?case
  proof (cases "attempt_count > brute_force_attempts (thresholds s)")
    case True
    with 2 alert_once_ticks [of s clk "''brute_force''" ip "''Brute Force Attack Detected''"
        "''high''" attempt_count "[ip]"]
    show ?thesis by simp
  next
    case False
    with 2 show ?thesis by simp
  qed
qed

lemma brute_force_buckets_keys_mono:
  "set (keys_sent s) \<subseteq> set (keys_sent (brute_force_buckets clk bs s))"
proof (induction clk bs s rule: brute_force_buckets.induct)
  case (1 clk s)
  then show ?case by simp
next
  case (2 clk ip attempt_count buckets s)
  show ?case
  proof (cases "attempt_count > brute_force_attempts (thresholds s)")
    case True
    with 2 alert_once_keys_mono [of s clk "''brute_force''" ip "''Brute Force Attack Detected''"
        "''high''" attempt_count "[ip]"]
    show ?thesis by auto
  next
    case False
    with 2 show ?thesis by simp
  qed
qed

text \<open>
  Every bucket above the threshold has, after the loop over the buckets, a dispatched key
  made from one of the clock readings of the loop.
\<close>

lemma brute_force_buckets_each:
  assumes "steady clk" "dedup_inv clk s" "(ip, n) \<in> set bs"
    "n > brute_force_attempts (thresholds s)"
  shows "\<exists>j. ticks s \<le> j \<and> j < ticks (brute_force_buckets clk bs s) \<and>
           (''brute_force'', ip, hour_label (clk j)) \<in> set (keys_sent (brute_force_buckets clk bs s))"
  using assms
proof (induction bs arbitrary: s)
  case Nil
  then show ?case by simp
next
  case (Cons b bs)
  obtain ip0 n0 where b: "b = (ip0, n0)" by (cases b)
  define s1 where "s1 = (if n0 > brute_force_attempts (thresholds s)
        then alert_once clk ''brute_force'' ip0 ''Brute Force Attack Detected'' ''high'' n0 [ip0] s
        else s)"
  have unf: "brute_force_buckets clk (b # bs) s = brute_force_buckets clk bs s1"
    by (simp add: b s1_def)
  have inv1: "dedup_inv clk s1"
    using Cons.prems(1,2) by (simp add: s1_def alert_once_inv)
  have th1: "thresholds s1 = thresholds s"
    by (simp add: s1_def alert_once_thresholds)
  have tk1: "ticks s \<le> ticks s1"
    using alert_once_ticks [of s clk "''brute_force''" ip0 "''Brute Force Attack Detected''"
        "''high''" n0 "[ip0]"]
    by (simp add: s1_def)
  show ?case
  proof (cases "(ip, n) = b")
    case True
    then have hd: "ip0 = ip" "n0 = n" by (simp_all add: b)
    have above: "n0 > brute_force_attempts (thresholds s)"
      using Cons.prems(4) hd by simp
    then have s1: "s1 = alert_once clk ''brute_force'' ip0 ''Brute Force Attack Detected''
        ''high'' n0 [ip0] s"
      by (simp add: s1_def)
    have "(''brute_force'', ip0, hour_label (clk (ticks s))) \<in> set (keys_sent s1)"
      unfolding s1 using Cons.prems(2) by (rule alert_once_key_sent)
    then have "(''brute_force'', ip, hour_label (clk (ticks s)))
        \<in> set (keys_sent (brute_force_buckets clk bs s1))"
      using brute_force_buckets_keys_mono [of s1 clk bs] hd by blast
    moreover have "ticks s < ticks (brute_force_buckets clk bs s1)"
    proof -
      have "ticks s < ticks s1" unfolding s1 by (rule alert_once_ticks)
      also have "\<dots> \<le> ticks (brute_force_buckets clk bs s1)"
        by (rule brute_force_buckets_ticks)
      finally show ?thesis .
    qed
    ultimately show ?thesis
      unfolding unf by (intro exI [of _ "ticks s"]) simp
  next
    case False
    with Cons.prems(3) have "(ip, n) \<in> set bs" by auto
    moreover have "n > brute_force_attempts (thresholds s1)"
      using Cons.prems(4) by (simp add: th1)
    ultimately obtain j where j: "ticks s1 \<le> j" "j < ticks (brute_force_buckets clk bs s1)"
      "(''brute_force'', ip, hour_label (clk j)) \<in> set (keys_sent (brute_force_buckets clk bs s1))"
      using Cons.IH [OF Cons.prems(1) inv1] by blast
    from j(1) tk1 have "ticks s \<le> j" by simp
    with j(2,3) show ?thesis unfolding unf by blast
  qed
qed

lemma count_one_if_distinct_member:
  "distinct xs \<Longrightarrow> x \<in> set xs \<Longrightarrow> count_list xs x = 1"
  by (induction xs) (auto simp: count_list_0_iff)

lemma stored_iff_dispatched:
  assumes inv: "dedup_inv clk s"
  shows "map_of (sent_alerts s) (name, dim, hour_label (clk (ticks s))) = None \<longleftrightarrow>
         (name, dim, hour_label (clk (ticks s))) \<notin> set (keys_sent s)"
  using alert_once_dispatched [OF inv, of name dim "[]" "[]" 0 "[]"]
  by (auto simp: alert_once_unfold split: if_splits)

lemma alert_once_ticks_eq:
  assumes inv: "dedup_inv clk s"
  shows "ticks (alert_once clk name dim subject severity v ips s) =
     (if (name, dim, hour_label (clk (ticks s))) \<in> set (keys_sent s) then Suc (ticks s)
      else Suc (Suc (ticks s)))"
  using stored_iff_dispatched [OF inv, of name dim]
  by (simp add: alert_once_unfold)

lemma alert_once_keys_sent:
  assumes inv: "dedup_inv clk s"
  shows "keys_sent (alert_once clk name dim subject severity v ips s) =
     (if (name, dim, hour_label (clk (ticks s))) \<in> set (keys_sent s) then keys_sent s
      else keys_sent s @ [(name, dim, hour_label (clk (ticks s)))])"
  by (simp add: alert_once_dispatched [OF inv] keys_sent_def)

text \<open>
  On a state that satisfies the invariant, the loop over the buckets dispatches the keys
  that deduplication against the whole history dispatches.
\<close>

lemma brute_force_buckets_by_history:
  assumes "steady clk" "dedup_inv clk s"
  shows "keys_sent (brute_force_buckets clk bs s) =
     dispatch_by_history clk
       (map fst (filter (\<lambda>(ip, n). n > brute_force_attempts (thresholds s)) bs))
       (ticks s) (keys_sent s)"
  using assms
proof (induction bs arbitrary: s)
  case Nil
  then show ?case by simp
next
  case (Cons b bs)
  obtain ip0 n0 where b: "b = (ip0, n0)" by (cases b)
  show ?case
  proof (cases "n0 > brute_force_attempts (thresholds s)")
    case False
    then show ?thesis
      using Cons.IH [OF Cons.prems] by (simp add: b)
  next
    case True
    define s1 where
      "s1 = alert_once clk ''brute_force'' ip0 ''Brute Force Attack Detected'' ''high'' n0 [ip0] s"
    have inv1: "dedup_inv clk s1"
      unfolding s1_def using Cons.prems by (rule alert_once_inv)
    have th1: "thresholds s1 = thresholds s"
      by (simp add: s1_def alert_once_thresholds)
    have "keys_sent (brute_force_buckets clk (b # bs) s) = keys_sent (brute_force_buckets clk bs s1)"
      using True by (simp add: b s1_def)
    also have "\<dots> = dispatch_by_history clk
         (map fst (filter (\<lambda>(ip, n). n > brute_force_attempts (thresholds s)) bs))
         (ticks s1) (keys_sent s1)"
      using Cons.IH [OF Cons.prems(1) inv1] by (simp add: th1)
    also have "\<dots> = dispatch_by_history clk
         (map fst (filter (\<lambda>(ip, n). n > brute_force_attempts (thresholds s)) (b # bs)))
         (ticks s) (keys_sent s)"
      using True
      by (simp add: b s1_def alert_once_ticks_eq [OF Cons.prems(2)]
            alert_once_keys_sent [OF Cons.prems(2)])
    finally show ?thesis .
  qed
qed

text \<open>A bucket at or below the threshold has no part in the loop.\<close>

lemma brute_force_buckets_filter:
  "brute_force_buckets clk bs s =
     brute_force_buckets clk (filter (\<lambda>(ip, n). n > brute_force_attempts (thresholds s)) bs) s"
proof (induction bs arbitrary: s)
  case Nil
  then show ?case by simp
next
  case (Cons b bs)
  obtain ip0 n0 where b: "b = (ip0, n0)" by (cases b)
  show ?case
  proof (cases "n0 > brute_force_attempts (thresholds s)")
    case False
    then show ?thesis
      using Cons.IH [of s] by (simp add: b)
  next
    case True
    define s1 where
      "s1 = alert_once clk ''brute_force'' ip0 ''Brute Force Attack Detected'' ''high'' n0 [ip0] s"
    have th1: "thresholds s1 = thresholds s"
      by (simp add: s1_def alert_once_thresholds)
    show ?thesis
      using True Cons.IH [of s1] by (simp add: b s1_def [symmetric] th1)
  qed
qed

text \<open>
  What the loop adds to the dispatched notifications names, each time, a bucket above
  the threshold, with its IP and its count.
\<close>

lemma brute_force_buckets_new:
  "\<exists>new. dispatched (brute_force_buckets clk bs s) = dispatched s @ new \<and>
      (\<forall>n \<in> set new. \<exists>(ip, c) \<in> set bs.
          c > brute_force_attempts (thresholds s) \<and> n_ips n = [ip] \<and> n_value n = c)"
proof (induction bs arbitrary: s)
  case Nil
  then show ?case by simp
next
  case (Cons b bs)
  obtain ip0 n0 where b: "b = (ip0, n0)" by (cases b)
  show ?case
  proof (cases "n0 > brute_force_attempts (thresholds s)")
    case False
    from Cons.IH [of s] obtain new where
      "dispatched (brute_force_buckets clk bs s) = dispatched s @ new"
      "\<forall>n \<in> set new. \<exists>(ip, c) \<in> set bs.
          c > brute_force_attempts (thresholds s) \<and> n_ips n = [ip] \<and> n_value n = c"
      by blast
    with False show ?thesis
      by (intro exI [of _ new]) (auto simp: b)
  next
    case True
    define s1 where
      "s1 = alert_once clk ''brute_force'' ip0 ''Brute Force Attack Detected'' ''high'' n0 [ip0] s"
    have th1: "thresholds s1 = thresholds s"
      by (simp add: s1_def alert_once_thresholds)
    from Cons.IH [of s1] obtain new where new:
      "dispatched (brute_force_buckets clk bs s1) = dispatched s1 @ new"
      "\<forall>n \<in> set new. \<exists>(ip, c) \<in> set bs.
          c > brute_force_attempts (thresholds s) \<and> n_ips n = [ip] \<and> n_value n = c"
      unfolding th1 by blast
    have unf: "brute_force_buckets clk (b # bs) s = brute_force_buckets clk bs s1"
      using True by (simp add: b s1_def)
    obtain hd where hd: "dispatched s1 = dispatched s @ hd"
      "\<forall>n \<in> set hd. n_ips n = [ip0] \<and> n_value n = n0"
      by (cases "map_of (sent_alerts s) (''brute_force'', ip0, hour_label (clk (ticks s))) = None")
         (simp_all add: s1_def alert_once_unfold)
    show ?thesis
    proof (intro exI [of _ "hd @ new"] conjI ballI)
      show "dispatched (brute_force_buckets clk (b # bs) s) = dispatched s @ hd @ new"
        by (simp add: unf new(1) hd(1))
    next
      fix n assume "n \<in> set (hd @ new)"
      then consider "n \<in> set hd" | "n \<in> set new" by auto
      then show "\<exists>(ip, c) \<in> set (b # bs).
          c > brute_force_attempts (thresholds s) \<and> n_ips n = [ip] \<and> n_value n = c"
      proof cases
        case 1
        with hd(2) True show ?thesis by (auto simp: b)
      next
        case 2
        with new(2) show ?thesis by fastforce
      qed
    qed
  qed
qed

text \<open>
  When no key of the IPs of the response is stored and the response names each IP once,
  the loop dispatches one notification for each bucket above the threshold, in the order
  of the buckets.
\<close>

lemma brute_force_buckets_fresh:
  assumes "distinct (map fst bs)"
    "\<forall>ip \<in> fst ` set bs. \<forall>h. (''brute_force'', ip, h) \<notin> fst ` set (sent_alerts s)"
  shows "map (\<lambda>n. (n_ips n, n_value n)) (dispatched (brute_force_buckets clk bs s)) =
     map (\<lambda>n. (n_ips n, n_value n)) (dispatched s) @
     map (\<lambda>(ip, c). ([ip], c)) (filter (\<lambda>(ip, n). n > brute_force_attempts (thresholds s)) bs)"
  using assms
proof (induction bs arbitrary: s)
  case Nil
  then show ?case by simp
next
  case (Cons b bs)
  obtain ip0 n0 where b: "b = (ip0, n0)" by (cases b)
  have d: "distinct (map fst bs)" "ip0 \<notin> fst ` set bs"
    using Cons.prems(1) by (simp_all add: b)
  have fresh: "\<forall>ip \<in> fst ` set bs. \<forall>h. (''brute_force'', ip, h) \<notin> fst ` set (sent_alerts s)"
    using Cons.prems(2) by simp
  show ?case
  proof (cases "n0 > brute_force_attempts (thresholds s)")
    case False
    then show ?thesis
      using Cons.IH [OF d(1) fresh] by (simp add: b)
  next
    case True
    define k where "k = (''brute_force'', ip0, hour_label (clk (ticks s)))"
    define s1 where
      "s1 = alert_once clk ''brute_force'' ip0 ''Brute Force Attack Detected'' ''high'' n0 [ip0] s"
    have "k \<notin> fst ` set (sent_alerts s)"
      using Cons.prems(2) by (simp add: b k_def)
    then have none: "map_of (sent_alerts s) k = None"
      by (simp add: map_of_eq_None_iff)
    have s1: "s1 = s\<lparr>dispatched := dispatched s @
               [\<lparr>n_key = k, n_subject = ''Brute Force Attack Detected'',
                 n_severity = ''high'', n_value = n0, n_ips = [ip0]\<rparr>],
             ticks := Suc (Suc (ticks s)),
             sent_alerts := AList.update k (clk (Suc (ticks s))) (sent_alerts s)\<rparr>"
      using none unfolding s1_def k_def by (simp add: alert_once_unfold)
    have th1: "thresholds s1 = thresholds s"
      by (simp add: s1)
    have "fst ` set (sent_alerts s1) \<subseteq> insert k (fst ` set (sent_alerts s))"
      by (auto simp: s1 dom_update)
    then have fresh1:
      "\<forall>ip \<in> fst ` set bs. \<forall>h. (''brute_force'', ip, h) \<notin> fst ` set (sent_alerts s1)"
      using fresh d(2) by (auto simp: k_def)
    have "brute_force_buckets clk (b # bs) s = brute_force_buckets clk bs s1"
      using True by (simp add: b s1_def)
    then show ?thesis
      using True Cons.IH [OF d(1) fresh1] by (simp add: b th1) (simp add: s1)
  qed
qed

lemma map_of_filter_distinct:
  "distinct (map fst al) \<Longrightarrow>
     map_of (filter P al) k =
       (case map_of al k of None \<Rightarrow> None | Some v \<Rightarrow> if P (k, v) then Some v else None)"
proof (induction al)
  case Nil
  then show ?case by simp
next
  case (Cons a al)
  obtain k' v' where a: "a = (k', v')" by (cases a)
  from Cons.prems have "k' \<notin> fst ` set al" by (simp add: a)
  then have none: "map_of al k' = None" by (simp add: map_of_eq_None_iff)
  from Cons show ?case
    by (auto simp: a none split: option.split)
qed

lemma brute_force_buckets_below:
  "\<forall>(ip, c) \<in> set bs. c \<le> brute_force_attempts (thresholds s) \<Longrightarrow>
     brute_force_buckets clk bs s = s"
  by (induction clk bs s rule: brute_force_buckets.induct) auto

lemma brute_force_buckets_added:
  "\<forall>n \<in> set (drop (length (dispatched s)) (dispatched (brute_force_buckets clk bs s))).
      \<exists>(ip, c) \<in> set bs.
         c > brute_force_attempts (thresholds s) \<and> n_ips n = [ip] \<and> n_value n = c"
proof -
  obtain new where new: "dispatched (brute_force_buckets clk bs s) = dispatched s @ new"
    "\<forall>n \<in> set new. \<exists>(ip, c) \<in> set bs.
        c > brute_force_attempts (thresholds s) \<and> n_ips n = [ip] \<and> n_value n = c"
    using brute_force_buckets_new [of clk bs s] by blast
  show ?thesis
    unfolding new(1) using new(2) by simp
qed

lemma brute_force_buckets_added_fresh:
  assumes "sent_alerts s = []" "distinct (map fst bs)"
  shows "map (\<lambda>n. (n_ips n, n_value n))
       (drop (length (dispatched s)) (dispatched (brute_force_buckets clk bs s))) =
     map (\<lambda>(ip, c). ([ip], c)) (filter (\<lambda>(ip, n). n > brute_force_attempts (thresholds s)) bs)"
proof -
  have "map (\<lambda>n. (n_ips n, n_value n)) (dispatched (brute_force_buckets clk bs s)) =
     map (\<lambda>n. (n_ips n, n_value n)) (dispatched s) @
     map (\<lambda>(ip, c). ([ip], c)) (filter (\<lambda>(ip, n). n > brute_force_attempts (thresholds s)) bs)"
    using assms by (intro brute_force_buckets_fresh) simp_all
  then have "drop (length (dispatched s))
       (map (\<lambda>n. (n_ips n, n_value n)) (dispatched (brute_force_buckets clk bs s))) =
     map (\<lambda>(ip, c). ([ip], c)) (filter (\<lambda>(ip, n). n > brute_force_attempts (thresholds s)) bs)"
    by simp
  then show ?thesis by (simp add: drop_map)
qed

text \<open>
  Claim C7. After one run of \<open>cleanup_old_alerts\<close>, an entry of \<open>sent_alerts\<close> whose
  recorded time is more than 24 hours before the clock reading of the cleanup is absent,
  an entry at most 24 hours old is kept with its time unchanged, and no entry is added.
\<close>

theorem cleanup_evicts_exactly_entries_older_than_24h:
  assumes "distinct (map fst (sent_alerts s))"
  shows "map_of (sent_alerts (cleanup_old_alerts clk s)) k =
     (case map_of (sent_alerts s) k of
        None \<Rightarrow> None
      | Some timestamp \<Rightarrow> if clk (ticks s) - timestamp > hours24 then None else Some timestamp)"
proof -
  have "map_of (sent_alerts (cleanup_old_alerts clk s)) k =
        map_of (filter (\<lambda>(key, timestamp). \<not> clk (ticks s) - timestamp > hours24) (sent_alerts s)) k"
    by (simp only: cleanup_filter[OF assms])
  also have "\<dots> = (case map_of (sent_alerts s) k of
        None \<Rightarrow> None
      | Some timestamp \<Rightarrow> if clk (ticks s) - timestamp > hours24 then None else Some timestamp)"
    by (simp add: map_of_filter_distinct[OF assms] split: option.split)
  finally show ?thesis .
qed

theorem cleanup_evicts_exactly_entries_older_than_24h_witness:
  "distinct (map fst [((''high_volume'', [], 0::int), 0::int), ((''unique_ips'', [], 1), 3600000000)]) \<and>
   map_of (sent_alerts (cleanup_old_alerts (\<lambda>n. 90000000000)
      \<lparr>thresholds = \<lparr>high_volume_attacks = 100, unique_ips_per_hour = 50,
         brute_force_attempts = 20, iot_botnet_activity = 10\<rparr>,
       sent_alerts = [((''high_volume'', [], 0), 0), ((''unique_ips'', [], 1), 3600000000)],
       dispatched = [], ticks = 0\<rparr>)) (''high_volume'', [], 0) = None \<and>
   map_of (sent_alerts (cleanup_old_alerts (\<lambda>n. 90000000000)
      \<lparr>thresholds = \<lparr>high_volume_attacks = 100, unique_ips_per_hour = 50,
         brute_force_attempts = 20, iot_botnet_activity = 10\<rparr>,
       sent_alerts = [((''high_volume'', [], 0), 0), ((''unique_ips'', [], 1), 3600000000)],
       dispatched = [], ticks = 0\<rparr>)) (''unique_ips'', [], 1) = Some 3600000000"
  using cleanup_evicts_exactly_entries_older_than_24h
    [of "\<lparr>thresholds = \<lparr>high_volume_attacks = 100, unique_ips_per_hour = 50,
         brute_force_attempts = 20, iot_botnet_activity = 10\<rparr>,
       sent_alerts = [((''high_volume'', [], 0), 0), ((''unique_ips'', [], 1), 3600000000)],
       dispatched = [], ticks = 0\<rparr>" "\<lambda>n. 90000000000" "(''high_volume'', [], 0)"]
    cleanup_evicts_exactly_entries_older_than_24h
    [of "\<lparr>thresholds = \<lparr>high_volume_attacks = 100, unique_ips_per_hour = 50,
         brute_force_attempts = 20, iot_botnet_activity = 10\<rparr>,
       sent_alerts = [((''high_volume'', [], 0), 0), ((''unique_ips'', [], 1), 3600000000)],
       dispatched = [], ticks = 0\<rparr>" "\<lambda>n. 90000000000" "(''unique_ips'', [], 1)"]
  by (simp add: hours24_def hour_us_def)

text \<open>
  Claim C10. Each of the four checks compares its aggregate with the threshold by a
  strict \<open>>\<close>: with an aggregate at most equal to the threshold (for the brute-force
  check, with every bucket at most equal to it) the check leaves the service as it was,
  so nothing is dispatched; with an aggregate above the threshold and an empty
  \<open>sent_alerts\<close> it dispatches one notification. The brute-force check decides bucket by
  bucket, whatever the other buckets of the response are: the buckets at or below the
  threshold can be struck from the response without any change to what the check does;
  every notification the check adds carries the IP and the count of a bucket strictly
  above the threshold; and with an empty \<open>sent_alerts\<close> and a response that names each
  IP once, the notifications added are those of the buckets strictly above the
  threshold, one for each, in the order of the response.
\<close>

theorem checks_alert_only_strictly_above_threshold:
  "(c \<le> high_volume_attacks (thresholds s) \<longrightarrow>
      check_high_volume_attacks clk (Some c) s = s) \<and>
   (c \<le> unique_ips_per_hour (thresholds s) \<longrightarrow>
      check_unique_ips clk (Some c) s = s) \<and>
   ((\<forall>(ip, n) \<in> set bs. n \<le> brute_force_attempts (thresholds s)) \<longrightarrow>
      check_brute_force_attacks clk (Some bs) s = s) \<and>
   (c \<le> iot_botnet_activity (thresholds s) \<longrightarrow>
      check_iot_botnet_activity clk (Some (c, bs)) s = s) \<and>
   (sent_alerts s = [] \<longrightarrow>
      (c > high_volume_attacks (thresholds s) \<longrightarrow>
         length (dispatched (check_high_volume_attacks clk (Some c) s)) = Suc (length (dispatched s))) \<and>
      (c > unique_ips_per_hour (thresholds s) \<longrightarrow>
         length (dispatched (check_unique_ips clk (Some c) s)) = Suc (length (dispatched s))) \<and>
      (c > brute_force_attempts (thresholds s) \<longrightarrow>
         length (dispatched (check_brute_force_attacks clk (Some [(ip, c)]) s)) = Suc (length (dispatched s))) \<and>
      (c > iot_botnet_activity (thresholds s) \<longrightarrow>
         length (dispatched (check_iot_botnet_activity clk (Some (c, bs)) s)) = Suc (length (dispatched s)))) \<and>
   check_brute_force_attacks clk (Some bs) s =
     check_brute_force_attacks clk
       (Some (filter (\<lambda>(ip, n). n > brute_force_attempts (thresholds s)) bs)) s \<and>
   (\<forall>n \<in> set (drop (length (dispatched s))
                (dispatched (check_brute_force_attacks clk (Some bs) s))).
      \<exists>(ip, a) \<in> set bs.
         a > brute_force_attempts (thresholds s) \<and> n_ips n = [ip] \<and> n_value n = a) \<and>
   (sent_alerts s = [] \<and> distinct (map fst bs) \<longrightarrow>
      map (\<lambda>n. (n_ips n, n_value n))
        (drop (length (dispatched s)) (dispatched (check_brute_force_attacks clk (Some bs) s))) =
      map (\<lambda>(ip, a). ([ip], a))
        (filter (\<lambda>(ip, n). n > brute_force_attempts (thresholds s)) bs))"
proof -
  have first: "(c \<le> high_volume_attacks (thresholds s) \<longrightarrow>
      check_high_volume_attacks clk (Some c) s = s) \<and>
   (c \<le> unique_ips_per_hour (thresholds s) \<longrightarrow>
      check_unique_ips clk (Some c) s = s) \<and>
   ((\<forall>(ip, n) \<in> set bs. n \<le> brute_force_attempts (thresholds s)) \<longrightarrow>
      check_brute_force_attacks clk (Some bs) s = s) \<and>
   (c \<le> iot_botnet_activity (thresholds s) \<longrightarrow>
      check_iot_botnet_activity clk (Some (c, bs)) s = s) \<and>
   (sent_alerts s = [] \<longrightarrow>
      (c > high_volume_attacks (thresholds s) \<longrightarrow>
         length (dispatched (check_high_volume_attacks clk (Some c) s)) = Suc (length (dispatched s))) \<and>
      (c > unique_ips_per_hour (thresholds s) \<longrightarrow>
         length (dispatched (check_unique_ips clk (Some c) s)) = Suc (length (dispatched s))) \<and>
      (c > brute_force_attempts (thresholds s) \<longrightarrow>
         length (dispatched (check_brute_force_attacks clk (Some [(ip, c)]) s)) = Suc (length (dispatched s))) \<and>
      (c > iot_botnet_activity (thresholds s) \<longrightarrow>
         length (dispatched (check_iot_botnet_activity clk (Some (c, bs)) s)) = Suc (length (dispatched s))))"
    by (simp add: check_high_volume_attacks_def check_unique_ips_def check_brute_force_attacks_def
        check_iot_botnet_activity_def brute_force_buckets_below alert_once_unfold)
  have flt: "check_brute_force_attacks clk (Some bs) s =
     check_brute_force_attacks clk
       (Some (filter (\<lambda>(ip, n). n > brute_force_attempts (thresholds s)) bs)) s"
    using brute_force_buckets_filter [of clk bs s] by (simp add: check_brute_force_attacks_def)
  have added: "\<forall>n \<in> set (drop (length (dispatched s))
                (dispatched (check_brute_force_attacks clk (Some bs) s))).
      \<exists>(ip, a) \<in> set bs.
         a > brute_force_attempts (thresholds s) \<and> n_ips n = [ip] \<and> n_value n = a"
    using brute_force_buckets_added [of s clk bs] by (simp add: check_brute_force_attacks_def)
  have fresh: "sent_alerts s = [] \<and> distinct (map fst bs) \<longrightarrow>
      map (\<lambda>n. (n_ips n, n_value n))
        (drop (length (dispatched s)) (dispatched (check_brute_force_attacks clk (Some bs) s))) =
      map (\<lambda>(ip, a). ([ip], a))
        (filter (\<lambda>(ip, n). n > brute_force_attempts (thresholds s)) bs)"
    using brute_force_buckets_added_fresh [of s bs clk] by (simp add: check_brute_force_attacks_def)
  from first flt added fresh show ?thesis by blast
qed

theorem checks_alert_only_strictly_above_threshold_witness:
  "(100::int) \<le> 100 \<and> (101::int) > 100 \<and>
   check_high_volume_attacks (\<lambda>n. 0) (Some 100)
     (init_service \<lparr>high_volume_attacks = 100, unique_ips_per_hour = 100,
        brute_force_attempts = 100, iot_botnet_activity = 100\<rparr>)
     = init_service \<lparr>high_volume_attacks = 100, unique_ips_per_hour = 100,
        brute_force_attempts = 100, iot_botnet_activity = 100\<rparr> \<and>
   check_brute_force_attacks (\<lambda>n. 0) (Some [(''10.0.0.1'', 100)])
     (init_service \<lparr>high_volume_attacks = 100, unique_ips_per_hour = 100,
        brute_force_attempts = 100, iot_botnet_activity = 100\<rparr>)
     = init_service \<lparr>high_volume_attacks = 100, unique_ips_per_hour = 100,
        brute_force_attempts = 100, iot_botnet_activity = 100\<rparr> \<and>
   length (dispatched (check_high_volume_attacks (\<lambda>n. 0) (Some 101)
     (init_service \<lparr>high_volume_attacks = 100, unique_ips_per_hour = 100,
        brute_force_attempts = 100, iot_botnet_activity = 100\<rparr>))) = 1 \<and>
   length (dispatched (check_brute_force_attacks (\<lambda>n. 0) (Some [(''10.0.0.1'', 101)])
     (init_service \<lparr>high_volume_attacks = 100, unique_ips_per_hour = 100,
        brute_force_attempts = 100, iot_botnet_activity = 100\<rparr>))) = 1 \<and>
   sent_alerts (init_service default_thresholds) = [] \<and>
   distinct (map fst [(''10.0.0.1'', 25::int), (''10.0.0.2'', 20), (''10.0.0.3'', 21)]) \<and>
   check_brute_force_attacks (\<lambda>n. 0)
       (Some [(''10.0.0.1'', 25), (''10.0.0.2'', 20), (''10.0.0.3'', 21)])
       (init_service default_thresholds) =
     check_brute_force_attacks (\<lambda>n. 0)
       (Some [(''10.0.0.1'', 25), (''10.0.0.3'', 21)])
       (init_service default_thresholds) \<and>
   map (\<lambda>n. (n_ips n, n_value n))
     (dispatched (check_brute_force_attacks (\<lambda>n. 0)
        (Some [(''10.0.0.1'', 25), (''10.0.0.2'', 20), (''10.0.0.3'', 21)])
        (init_service default_thresholds))) =
     [([''10.0.0.1''], 25), ([''10.0.0.3''], 21)]"
proof -
  note at_threshold = checks_alert_only_strictly_above_threshold
    [of 100 "init_service \<lparr>high_volume_attacks = 100, unique_ips_per_hour = 100,
        brute_force_attempts = 100, iot_botnet_activity = 100\<rparr>" "\<lambda>n. 0"
        "[(''10.0.0.1'', 100)]" "''10.0.0.1''"]
  note above = checks_alert_only_strictly_above_threshold
    [of 101 "init_service \<lparr>high_volume_attacks = 100, unique_ips_per_hour = 100,
        brute_force_attempts = 100, iot_botnet_activity = 100\<rparr>" "\<lambda>n. 0"
        "[]" "''10.0.0.1''"]
  note mixed = checks_alert_only_strictly_above_threshold
    [of 20 "init_service default_thresholds" "\<lambda>n. 0"
        "[(''10.0.0.1'', 25), (''10.0.0.2'', 20), (''10.0.0.3'', 21)]" "''10.0.0.1''"]
  have single: "(100::int) \<le> 100 \<and> (101::int) > 100 \<and>
   check_high_volume_attacks (\<lambda>n. 0) (Some 100)
     (init_service \<lparr>high_volume_attacks = 100, unique_ips_per_hour = 100,
        brute_force_attempts = 100, iot_botnet_activity = 100\<rparr>)
     = init_service \<lparr>high_volume_attacks = 100, unique_ips_per_hour = 100,
        brute_force_attempts = 100, iot_botnet_activity = 100\<rparr> \<and>
   check_brute_force_attacks (\<lambda>n. 0) (Some [(''10.0.0.1'', 100)])
     (init_service \<lparr>high_volume_attacks = 100, unique_ips_per_hour = 100,
        brute_force_attempts = 100, iot_botnet_activity = 100\<rparr>)
     = init_service \<lparr>high_volume_attacks = 100, unique_ips_per_hour = 100,
        brute_force_attempts = 100, iot_botnet_activity = 100\<rparr> \<and>
   length (dispatched (check_high_volume_attacks (\<lambda>n. 0) (Some 101)
     (init_service \<lparr>high_volume_attacks = 100, unique_ips_per_hour = 100,
        brute_force_attempts = 100, iot_botnet_activity = 100\<rparr>))) = 1 \<and>
   length (dispatched (check_brute_force_attacks (\<lambda>n. 0) (Some [(''10.0.0.1'', 101)])
     (init_service \<lparr>high_volume_attacks = 100, unique_ips_per_hour = 100,
        brute_force_attempts = 100, iot_botnet_activity = 100\<rparr>))) = 1"
    using at_threshold above by (simp add: init_service_def)
  have pre: "sent_alerts (init_service default_thresholds) = [] \<and>
      distinct (map fst [(''10.0.0.1'', 25::int), (''10.0.0.2'', 20), (''10.0.0.3'', 21)])"
    by (simp add: init_service_def)
  have thr: "brute_force_attempts (thresholds (init_service default_thresholds)) = 20"
    "dispatched (init_service default_thresholds) = []"
    by (simp_all add: init_service_def default_thresholds_def)
  from mixed have "check_brute_force_attacks (\<lambda>n. 0)
       (Some [(''10.0.0.1'', 25), (''10.0.0.2'', 20), (''10.0.0.3'', 21)])
       (init_service default_thresholds) =
     check_brute_force_attacks (\<lambda>n. 0)
       (Some (filter (\<lambda>(ip, n). n > brute_force_attempts (thresholds (init_service default_thresholds)))
          [(''10.0.0.1'', 25), (''10.0.0.2'', 20), (''10.0.0.3'', 21)]))
       (init_service default_thresholds)"
    by blast
  then have flt: "check_brute_force_attacks (\<lambda>n. 0)
       (Some [(''10.0.0.1'', 25), (''10.0.0.2'', 20), (''10.0.0.3'', 21)])
       (init_service default_thresholds) =
     check_brute_force_attacks (\<lambda>n. 0)
       (Some [(''10.0.0.1'', 25), (''10.0.0.3'', 21)])
       (init_service default_thresholds)"
    by (simp add: thr)
  from mixed pre have "map (\<lambda>n. (n_ips n, n_value n))
        (drop (length (dispatched (init_service default_thresholds)))
          (dispatched (check_brute_force_attacks (\<lambda>n. 0)
            (Some [(''10.0.0.1'', 25), (''10.0.0.2'', 20), (''10.0.0.3'', 21)])
            (init_service default_thresholds)))) =
      map (\<lambda>(ip, a). ([ip], a))
        (filter (\<lambda>(ip, n). n > brute_force_attempts (thresholds (init_service default_thresholds)))
           [(''10.0.0.1'', 25), (''10.0.0.2'', 20), (''10.0.0.3'', 21)])"
    by blast
  then have exact: "map (\<lambda>n. (n_ips n, n_value n))
     (dispatched (check_brute_force_attacks (\<lambda>n. 0)
        (Some [(''10.0.0.1'', 25), (''10.0.0.2'', 20), (''10.0.0.3'', 21)])
        (init_service default_thresholds))) =
     [([''10.0.0.1''], 25), ([''10.0.0.3''], 21)]"
    by (simp add: thr)
  from single pre flt exact show ?thesis by blast
qed

text \<open>
  Claim C3, under a steady clock. In every execution history of the alert service (any
  sequence of check cycles and cleanups) whose clock never reads more than eleven and a
  half hours earlier than a reading taken before, no alert key (check name, dimension,
  hour bucket) is dispatched twice. A threshold breach in hour bucket \<open>h\<close> dispatches a
  notification exactly when none was dispatched before under the key of that check,
  dimension and hour: a second breach in the same bucket dispatches nothing, and a breach
  in a later bucket, whose key is new, dispatches one. For a brute-force response with
  any number of buckets, the keys dispatched are those that deduplication against the
  whole history dispatches for the buckets above the threshold, they are distinct, and
  each IP above the threshold has, for the hour of one of the clock readings of the
  check, exactly one notification in the history.
\<close>

theorem one_notification_per_alert_key:
  assumes "steady clk"
  shows "let s = exec_jobs clk js (init_service th);
             h = hour_label (clk (ticks s));
             keys = map n_key (dispatched s)
         in distinct keys \<and>
            (c > high_volume_attacks th \<longrightarrow>
               map n_key (dispatched (check_high_volume_attacks clk (Some c) s)) =
                 (if (''high_volume'', [], h) \<in> set keys then keys
                  else keys @ [(''high_volume'', [], h)])) \<and>
            (c > unique_ips_per_hour th \<longrightarrow>
               map n_key (dispatched (check_unique_ips clk (Some c) s)) =
                 (if (''unique_ips'', [], h) \<in> set keys then keys
                  else keys @ [(''unique_ips'', [], h)])) \<and>
            (c > brute_force_attempts th \<longrightarrow>
               map n_key (dispatched (check_brute_force_attacks clk (Some [(ip, c)]) s)) =
                 (if (''brute_force'', ip, h) \<in> set keys then keys
                  else keys @ [(''brute_force'', ip, h)])) \<and>
            (c > iot_botnet_activity th \<longrightarrow>
               map n_key (dispatched (check_iot_botnet_activity clk (Some (c, bs)) s)) =
                 (if (''iot_botnet'', [], h) \<in> set keys then keys
                  else keys @ [(''iot_botnet'', [], h)])) \<and>
            map n_key (dispatched (check_brute_force_attacks clk (Some buckets) s)) =
              dispatch_by_history clk
                (map fst (filter (\<lambda>(ip, n). n > brute_force_attempts th) buckets))
                (ticks s) keys \<and>
            distinct (map n_key (dispatched (check_brute_force_attacks clk (Some buckets) s))) \<and>
            (\<forall>(ip, n) \<in> set buckets. n > brute_force_attempts th \<longrightarrow>
               (\<exists>j. ticks s \<le> j \<and>
                    j < ticks (check_brute_force_attacks clk (Some buckets) s) \<and>
                    count_list
                      (map n_key (dispatched (check_brute_force_attacks clk (Some buckets) s)))
                      (''brute_force'', ip, hour_label (clk j)) = 1))"
proof -
  define s where "s = exec_jobs clk js (init_service th)"
  define s' where "s' = brute_force_buckets clk buckets s"
  have inv: "dedup_inv clk s"
    unfolding s_def using assms init_inv by (rule exec_jobs_inv)
  have th: "thresholds s = th"
    by (simp add: s_def exec_jobs_thresholds init_service_def)
  have d: "distinct (map n_key (dispatched s))"
    using inv by (simp add: dedup_inv_def keys_sent_def)
  have once: "map n_key (dispatched (alert_once clk name dim subject severity v ips s)) =
       (if (name, dim, hour_label (clk (ticks s))) \<in> set (map n_key (dispatched s))
        then map n_key (dispatched s)
        else map n_key (dispatched s) @ [(name, dim, hour_label (clk (ticks s)))])"
    for name dim subject severity v ips
    by (simp add: alert_once_dispatched[OF inv] keys_sent_def)
  have first: "distinct (map n_key (dispatched s)) \<and>
            (c > high_volume_attacks th \<longrightarrow>
               map n_key (dispatched (check_high_volume_attacks clk (Some c) s)) =
                 (if (''high_volume'', [], hour_label (clk (ticks s))) \<in> set (map n_key (dispatched s))
                  then map n_key (dispatched s)
                  else map n_key (dispatched s) @ [(''high_volume'', [], hour_label (clk (ticks s)))])) \<and>
            (c > unique_ips_per_hour th \<longrightarrow>
               map n_key (dispatched (check_unique_ips clk (Some c) s)) =
                 (if (''unique_ips'', [], hour_label (clk (ticks s))) \<in> set (map n_key (dispatched s))
                  then map n_key (dispatched s)
                  else map n_key (dispatched s) @ [(''unique_ips'', [], hour_label (clk (ticks s)))])) \<and>
            (c > brute_force_attempts th \<longrightarrow>
               map n_key (dispatched (check_brute_force_attacks clk (Some [(ip, c)]) s)) =
                 (if (''brute_force'', ip, hour_label (clk (ticks s))) \<in> set (map n_key (dispatched s))
                  then map n_key (dispatched s)
                  else map n_key (dispatched s) @ [(''brute_force'', ip, hour_label (clk (ticks s)))])) \<and>
            (c > iot_botnet_activity th \<longrightarrow>
               map n_key (dispatched (check_iot_botnet_activity clk (Some (c, bs)) s)) =
                 (if (''iot_botnet'', [], hour_label (clk (ticks s))) \<in> set (map n_key (dispatched s))
                  then map n_key (dispatched s)
                  else map n_key (dispatched s) @ [(''iot_botnet'', [], hour_label (clk (ticks s)))]))"
    by (simp add: d th once check_high_volume_attacks_def check_unique_ips_def
          check_brute_force_attacks_def check_iot_botnet_activity_def)
  have cb: "check_brute_force_attacks clk (Some buckets) s = s'"
    by (simp add: check_brute_force_attacks_def s'_def)
  have hist: "map n_key (dispatched s') =
      dispatch_by_history clk
        (map fst (filter (\<lambda>(ip, n). n > brute_force_attempts th) buckets))
        (ticks s) (map n_key (dispatched s))"
    using brute_force_buckets_by_history [OF assms inv, of buckets]
    by (simp add: s'_def keys_sent_def th)
  have inv': "dedup_inv clk s'"
    unfolding s'_def using assms inv by (rule brute_force_buckets_inv)
  then have d': "distinct (map n_key (dispatched s'))"
    by (simp add: dedup_inv_def keys_sent_def)
  have each: "\<forall>(ip, n) \<in> set buckets. n > brute_force_attempts th \<longrightarrow>
       (\<exists>j. ticks s \<le> j \<and> j < ticks s' \<and>
            count_list (map n_key (dispatched s')) (''brute_force'', ip, hour_label (clk j)) = 1)"
  proof (intro ballI, clarify)
    fix ip n assume "(ip, n) \<in> set buckets" "n > brute_force_attempts th"
    then obtain j where j: "ticks s \<le> j" "j < ticks s'"
      "(''brute_force'', ip, hour_label (clk j)) \<in> set (keys_sent s')"
      using brute_force_buckets_each [OF assms inv, of ip n buckets]
      unfolding s'_def th by blast
    from d' j(3) have
      "count_list (map n_key (dispatched s')) (''brute_force'', ip, hour_label (clk j)) = 1"
      by (simp add: count_one_if_distinct_member keys_sent_def)
    with j(1,2) show "\<exists>j. ticks s \<le> j \<and> j < ticks s' \<and>
        count_list (map n_key (dispatched s')) (''brute_force'', ip, hour_label (clk j)) = 1"
      by blast
  qed
  show ?thesis
    unfolding s_def[symmetric] Let_def cb
    using first hist d' each by blast
qed

theorem one_notification_per_alert_key_witness:
  "steady (\<lambda>n. if n < 6 then 6600000000 + int n * 60000000
                 else if n < 9 then 3900000000 + int n * 60000000
                 else 7200000000 + int n * 60000000) \<and>
   (101::int) > high_volume_attacks default_thresholds \<and>
   (25::int) > brute_force_attempts default_thresholds \<and>
   map n_key (dispatched (exec_jobs
        (\<lambda>n. if n < 6 then 6600000000 + int n * 60000000
             else if n < 9 then 3900000000 + int n * 60000000
             else 7200000000 + int n * 60000000)
        [RunChecks \<lparr>r_volume = Some 101, r_ips = None,
           r_brute = Some [(''10.0.0.1'', 25), (''10.0.0.2'', 20), (''10.0.0.3'', 21)],
           r_iot = None\<rparr>,
         RunChecks \<lparr>r_volume = Some 101, r_ips = None,
           r_brute = Some [(''10.0.0.1'', 25), (''10.0.0.2'', 20), (''10.0.0.3'', 21)],
           r_iot = None\<rparr>]
        (init_service default_thresholds)))
     = [(''high_volume'', [], 1), (''brute_force'', ''10.0.0.1'', 1),
        (''brute_force'', ''10.0.0.3'', 1)] \<and>
   map n_key (dispatched (check_high_volume_attacks
        (\<lambda>n. if n < 6 then 6600000000 + int n * 60000000
             else if n < 9 then 3900000000 + int n * 60000000
             else 7200000000 + int n * 60000000)
        (Some 101)
        (exec_jobs
          (\<lambda>n. if n < 6 then 6600000000 + int n * 60000000
               else if n < 9 then 3900000000 + int n * 60000000
               else 7200000000 + int n * 60000000)
          [RunChecks \<lparr>r_volume = Some 101, r_ips = None,
             r_brute = Some [(''10.0.0.1'', 25), (''10.0.0.2'', 20), (''10.0.0.3'', 21)],
             r_iot = None\<rparr>,
           RunChecks \<lparr>r_volume = Some 101, r_ips = None,
             r_brute = Some [(''10.0.0.1'', 25), (''10.0.0.2'', 20), (''10.0.0.3'', 21)],
             r_iot = None\<rparr>]
          (init_service default_thresholds))))
     = [(''high_volume'', [], 1), (''brute_force'', ''10.0.0.1'', 1),
        (''brute_force'', ''10.0.0.3'', 1), (''high_volume'', [], 2)] \<and>
   map n_key (dispatched (check_brute_force_attacks
        (\<lambda>n. if n < 6 then 6600000000 + int n * 60000000
             else if n < 9 then 3900000000 + int n * 60000000
             else 7200000000 + int n * 60000000)
        (Some [(''10.0.0.1'', 25), (''10.0.0.2'', 20), (''10.0.0.3'', 21)])
        (exec_jobs
          (\<lambda>n. if n < 6 then 6600000000 + int n * 60000000
               else if n < 9 then 3900000000 + int n * 60000000
               else 7200000000 + int n * 60000000)
          [RunChecks \<lparr>r_volume = Some 101, r_ips = None,
             r_brute = Some [(''10.0.0.1'', 25), (''10.0.0.2'', 20), (''10.0.0.3'', 21)],
             r_iot = None\<rparr>,
           RunChecks \<lparr>r_volume = Some 101, r_ips = None,
             r_brute = Some [(''10.0.0.1'', 25), (''10.0.0.2'', 20), (''10.0.0.3'', 21)],
             r_iot = None\<rparr>]
          (init_service default_thresholds))))
     = [(''high_volume'', [], 1), (''brute_force'', ''10.0.0.1'', 1),
        (''brute_force'', ''10.0.0.3'', 1), (''brute_force'', ''10.0.0.1'', 2),
        (''brute_force'', ''10.0.0.3'', 2)]"
proof -
  define clk :: "nat \<Rightarrow> time" where
    "clk = (\<lambda>n. if n < 6 then 6600000000 + int n * 60000000
                 else if n < 9 then 3900000000 + int n * 60000000
                 else 7200000000 + int n * 60000000)"
  define js where
    "js = [RunChecks \<lparr>r_volume = Some 101, r_ips = None,
             r_brute = Some [(''10.0.0.1'', 25), (''10.0.0.2'', 20), (''10.0.0.3'', 21)],
             r_iot = None\<rparr>,
           RunChecks \<lparr>r_volume = Some 101, r_ips = None,
             r_brute = Some [(''10.0.0.1'', 25), (''10.0.0.2'', 20), (''10.0.0.3'', 21)],
             r_iot = None\<rparr>]"
  have st: "steady clk"
    by (simp add: steady_def max_step_back_def clk_def)
  have hyp: "(101::int) > high_volume_attacks default_thresholds"
    "(25::int) > brute_force_attempts default_thresholds"
    by (simp_all add: default_thresholds_def)
  have keys: "map n_key (dispatched (exec_jobs clk js (init_service default_thresholds)))
     = [(''high_volume'', [], 1), (''brute_force'', ''10.0.0.1'', 1),
        (''brute_force'', ''10.0.0.3'', 1)]"
    unfolding clk_def js_def by code_simp
  have tk: "ticks (exec_jobs clk js (init_service default_thresholds)) = 9"
    unfolding clk_def js_def by code_simp
  have h: "hour_label (clk 9) = 2" "hour_label (clk 10) = 2" "hour_label (clk 11) = 2"
    by (simp_all add: clk_def hour_label_def hour_us_def)
  note T = one_notification_per_alert_key [OF st, of js default_thresholds 101 "''10.0.0.1''" "[]"
      "[(''10.0.0.1'', 25), (''10.0.0.2'', 20), (''10.0.0.3'', 21)]"]
  have vol: "map n_key (dispatched (check_high_volume_attacks clk (Some 101)
        (exec_jobs clk js (init_service default_thresholds))))
     = [(''high_volume'', [], 1), (''brute_force'', ''10.0.0.1'', 1),
        (''brute_force'', ''10.0.0.3'', 1), (''high_volume'', [], 2)]"
  proof -
    from T hyp(1) have "map n_key (dispatched (check_high_volume_attacks clk (Some 101)
          (exec_jobs clk js (init_service default_thresholds)))) =
        (if (''high_volume'', [],
              hour_label (clk (ticks (exec_jobs clk js (init_service default_thresholds)))))
            \<in> set (map n_key (dispatched (exec_jobs clk js (init_service default_thresholds))))
         then map n_key (dispatched (exec_jobs clk js (init_service default_thresholds)))
         else map n_key (dispatched (exec_jobs clk js (init_service default_thresholds))) @
              [(''high_volume'', [],
                hour_label (clk (ticks (exec_jobs clk js (init_service default_thresholds)))))])"
      unfolding Let_def by blast
    then show ?thesis
      unfolding keys tk h by simp
  qed
  have bf: "map n_key (dispatched (check_brute_force_attacks clk
        (Some [(''10.0.0.1'', 25), (''10.0.0.2'', 20), (''10.0.0.3'', 21)])
        (exec_jobs clk js (init_service default_thresholds))))
     = [(''high_volume'', [], 1), (''brute_force'', ''10.0.0.1'', 1),
        (''brute_force'', ''10.0.0.3'', 1), (''brute_force'', ''10.0.0.1'', 2),
        (''brute_force'', ''10.0.0.3'', 2)]"
  proof -
    from T have "map n_key (dispatched (check_brute_force_attacks clk
          (Some [(''10.0.0.1'', 25), (''10.0.0.2'', 20), (''10.0.0.3'', 21)])
          (exec_jobs clk js (init_service default_thresholds)))) =
        dispatch_by_history clk
          (map fst (filter (\<lambda>(ip, n). n > brute_force_attempts default_thresholds)
             [(''10.0.0.1'', 25), (''10.0.0.2'', 20), (''10.0.0.3'', 21)]))
          (ticks (exec_jobs clk js (init_service default_thresholds)))
          (map n_key (dispatched (exec_jobs clk js (init_service default_thresholds))))"
      unfolding Let_def by blast
    then show ?thesis
      unfolding keys tk by (simp add: h default_thresholds_def)
  qed
  from st hyp keys vol bf show ?thesis
    unfolding clk_def js_def by blast
qed

text \<open>
  Claim C3 as stated, for every execution history, fails when the clock is not steady.
  The readings are 0 and 10 microseconds for the first cycle, 24 hours and 11
  microseconds for the cleanup, which evicts the key stored at 10, and 30 for the second
  cycle: the key of the high-volume check in hour 0 is dispatched a second time.
\<close>

theorem stepped_clock_dispatches_a_key_twice:
  "map n_key (dispatched (exec_jobs
        (\<lambda>n. if n = 2 then 86400000011 else int n * 10)
        [RunChecks \<lparr>r_volume = Some 101, r_ips = None, r_brute = None, r_iot = None\<rparr>,
         Cleanup,
         RunChecks \<lparr>r_volume = Some 101, r_ips = None, r_brute = None, r_iot = None\<rparr>]
        (init_service default_thresholds)))
     = [(''high_volume'', [], 0), (''high_volume'', [], 0)]"
  by code_simp

section \<open>Properties of the HTTP classifier\<close>

text \<open>
  What the classifier computes, in terms of the table of rules: the tags of the rules that
  fire, in the order of the table, and the level of the last rule that fires.
\<close>

lemma classify_tags:
  "fst (classify uri ua) = map (fst \<circ> snd) (filter (\<lambda>(t, tag, l). t uri ua) rules)"
  unfolding classify_def rules_def by (simp split: if_splits)

lemma classify_level:
  "snd (classify uri ua) =
     (case rev (filter (\<lambda>(t, tag, l). t uri ua) rules) of [] \<Rightarrow> ''low'' | (t, tag, l) # _ \<Rightarrow> l)"
  unfolding classify_def rules_def by (simp split: if_splits)

lemma get_lower_request:
  "get_lower (http_request method uri user_agent) ''request_uri'' = Inr (py_lower uri)"
  "get_lower (http_request method uri user_agent) ''user_agent'' = Inr (py_lower user_agent)"
  by (simp_all add: get_lower_def http_request_def)

text \<open>
  Claim C9. The result of \<open>analyze_request\<close> is the same for any two honeypot objects
  and any two request dictionaries that agree on the URI, the User-Agent and the method;
  on a request built from (method, uri, user_agent) it is the value of the function
  \<open>classify\<close> at the lower-cased URI and User-Agent.
\<close>

theorem analyze_request_is_pure:
  "(map_of rd1 ''request_uri'' = map_of rd2 ''request_uri'' \<and>
    map_of rd1 ''user_agent'' = map_of rd2 ''user_agent'' \<and>
    map_of rd1 ''method'' = map_of rd2 ''method''
      \<longrightarrow> analyze_request self1 rd1 = analyze_request self2 rd2) \<and>
   analyze_request self1 (http_request method uri user_agent) =
     Inr (classify (py_lower uri) (py_lower user_agent))"
proof (intro conjI impI)
  assume a: "map_of rd1 ''request_uri'' = map_of rd2 ''request_uri'' \<and>
    map_of rd1 ''user_agent'' = map_of rd2 ''user_agent'' \<and>
    map_of rd1 ''method'' = map_of rd2 ''method''"
  then have "get_lower rd1 ''request_uri'' = get_lower rd2 ''request_uri''"
    and "get_lower rd1 ''user_agent'' = get_lower rd2 ''user_agent''"
    by (simp_all add: get_lower_def)
  then show "analyze_request self1 rd1 = analyze_request self2 rd2"
    unfolding analyze_request_def Let_def by (simp only:)
next
  show "analyze_request self1 (http_request method uri user_agent) =
     Inr (classify (py_lower uri) (py_lower user_agent))"
    by (simp add: analyze_request_def get_lower_request)
qed

theorem analyze_request_is_pure_witness:
  "map_of [(''source_ip'', PStr ''10.0.0.1''), (''method'', PStr ''GET''),
           (''request_uri'', PStr ''/Admin''), (''user_agent'', PStr ''curl/8'')] ''request_uri''
     = map_of (http_request ''GET'' ''/Admin'' ''curl/8'') ''request_uri'' \<and>
   analyze_request
     \<lparr>http_total_requests = 0, http_unique_ips = {}, http_attack_types = [],
       http_user_agents = [], http_request_methods = [], http_events = []\<rparr>
     [(''source_ip'', PStr ''10.0.0.1''), (''method'', PStr ''GET''),
      (''request_uri'', PStr ''/Admin''), (''user_agent'', PStr ''curl/8'')]
   = analyze_request
     \<lparr>http_total_requests = 7, http_unique_ips = {''10.0.0.9''},
       http_attack_types = [(''xss'', 3)], http_user_agents = [], http_request_methods = [],
       http_events = []\<rparr>
     (http_request ''GET'' ''/Admin'' ''curl/8'') \<and>
   analyze_request
     \<lparr>http_total_requests = 7, http_unique_ips = {''10.0.0.9''},
       http_attack_types = [(''xss'', 3)], http_user_agents = [], http_request_methods = [],
       http_events = []\<rparr>
     (http_request ''GET'' ''/Admin'' ''curl/8'') = Inr ([''admin_access''], ''medium'')"
proof -
  let ?rd1 = "[(''source_ip'', PStr ''10.0.0.1''), (''method'', PStr ''GET''),
            (''request_uri'', PStr ''/Admin''), (''user_agent'', PStr ''curl/8'')]"
  let ?rd2 = "http_request ''GET'' ''/Admin'' ''curl/8''"
  let ?h1 = "\<lparr>http_total_requests = 0, http_unique_ips = {}, http_attack_types = [],
            http_user_agents = [], http_request_methods = [], http_events = []\<rparr>"
  let ?h2 = "\<lparr>http_total_requests = 7, http_unique_ips = {''10.0.0.9''},
            http_attack_types = [(''xss'', 3)], http_user_agents = [], http_request_methods = [],
            http_events = []\<rparr>"
  note pure = analyze_request_is_pure [of ?rd1 ?rd2 ?h1 ?h2 "''GET''" "''/Admin''" "''curl/8''"]
  have c: "classify (py_lower ''/Admin'') (py_lower ''curl/8'') = ([''admin_access''], ''medium'')"
    by code_simp
  have k1: "map_of ?rd1 ''request_uri'' = map_of ?rd2 ''request_uri''"
    by (simp add: http_request_def)
  have k2: "map_of ?rd1 ''user_agent'' = map_of ?rd2 ''user_agent''"
    by (simp add: http_request_def)
  have k3: "map_of ?rd1 ''method'' = map_of ?rd2 ''method''"
    by (simp add: http_request_def)
  have e1: "analyze_request ?h1 ?rd1 = analyze_request ?h2 ?rd2"
    by (rule mp [OF conjunct1 [OF pure]]) (intro conjI k1 k2 k3)
  have e2: "analyze_request ?h2 ?rd2 = Inr ([''admin_access''], ''medium'')"
    by (simp only: conjunct2 [OF analyze_request_is_pure [of ?rd1 ?rd2 ?h2 ?h2 "''GET''" "''/Admin''" "''curl/8''"]] c)
  show ?thesis
    by (intro conjI k1 e1 e2)
qed

text \<open>
  Claim C2, evaluated on a request whose URI fires the SQL-injection rule (level high)
  and the directory-traversal rule (level medium) and no other rule: both tags are
  returned, and the threat level returned is medium, the level of the rule that comes
  later in the source, which is below the maximum of the two.
\<close>

theorem analyze_request_sqli_and_traversal_yields_medium:
  "analyze_request self
     (http_request ''GET'' ''/download?file=../../etc/passwd&q=SELECT'' ''Mozilla/5.0'')
     = Inr ([''sql_injection'', ''directory_traversal''], ''medium'') \<and>
   map (\<lambda>(t, tag, l). (tag, l))
     (filter (\<lambda>(t, tag, l). t (py_lower ''/download?file=../../etc/passwd&q=SELECT'')
                                (py_lower ''Mozilla/5.0'')) rules)
     = [(''sql_injection'', ''high''), (''directory_traversal'', ''medium'')] \<and>
   severity_rank ''medium'' < severity_rank ''high''"
  by code_simp

section \<open>Properties of the Telnet honeypot\<close>

lemma get_input_loop_unfold:
  "tn_recvs s = r # rs \<Longrightarrow>
   get_input_loop hide data s =
     (case r of
        Eof \<Rightarrow> (Some data, s\<lparr>tn_recvs := rs\<rparr>)
      | Timeout \<Rightarrow> (None, s\<lparr>tn_recvs := rs\<rparr>)
      | SockError \<Rightarrow> (None, s\<lparr>tn_recvs := rs\<rparr>)
      | Chunk c \<Rightarrow>
          if is_eol c then (Some data, s\<lparr>tn_recvs := rs\<rparr>)
          else if is_erase c then
            (if data = [] then get_input_loop hide data (s\<lparr>tn_recvs := rs\<rparr>)
             else if hide then get_input_loop hide (butlast data) (s\<lparr>tn_recvs := rs\<rparr>)
             else (case tn_send [CHR 0x08, CHR '' '', CHR 0x08] (s\<lparr>tn_recvs := rs\<rparr>) of
                     (False, s2) \<Rightarrow> (None, s2)
                   | (True, s2) \<Rightarrow> get_input_loop hide (butlast data) s2))
          else (case tn_send (if hide then ''*'' else [c]) (s\<lparr>tn_recvs := rs\<rparr>) of
                  (False, s2) \<Rightarrow> (None, s2)
                | (True, s2) \<Rightarrow> get_input_loop hide (data @ [c]) s2))"
  by (subst get_input_loop.simps)
     (simp add: tn_recv_def is_eol_def is_erase_def split: recv_result.split)

lemma get_input_loop_empty:
  "tn_recvs s = [] \<Longrightarrow> get_input_loop hide data s = (Some data, s)"
  by (subst get_input_loop.simps) (simp add: tn_recv_def)

lemma tn_send_ok:
  assumes "\<forall>b \<in> set (tn_sends s). b"
  obtains s2 where "tn_send d s = (True, s2)" "tn_trace s2 = tn_trace s @ [Send d]"
    "tn_recvs s2 = tn_recvs s" "\<forall>b \<in> set (tn_sends s2). b"
  using assms by (cases "tn_sends s") (auto simp: tn_send_def)

lemma get_input_loop_edits:
  assumes "\<forall>c \<in> set cs. \<not> is_eol c" "is_eol e" "\<forall>b \<in> set (tn_sends s). b"
    "tn_recvs s = map Chunk cs @ Chunk e # rest"
  shows "fst (get_input_loop hide data s) = Some (spec_line data cs) \<and>
         tn_trace (snd (get_input_loop hide data s)) = tn_trace s @ spec_echo hide data cs \<and>
         tn_recvs (snd (get_input_loop hide data s)) = rest"
  using assms
proof (induction cs arbitrary: data s)
  case Nil
  then show ?case by (simp add: get_input_loop_unfold)
next
  case (Cons c cs)
  let ?s1 = "s\<lparr>tn_recvs := map Chunk cs @ Chunk e # rest\<rparr>"
  from Cons.prems have rv: "tn_recvs s = Chunk c # (map Chunk cs @ Chunk e # rest)"
    and neol: "\<not> is_eol c" and rest_ok: "\<forall>c \<in> set cs. \<not> is_eol c"
    by simp_all
  have s1: "\<forall>b \<in> set (tn_sends ?s1). b" "tn_recvs ?s1 = map Chunk cs @ Chunk e # rest"
    "tn_trace ?s1 = tn_trace s"
    using Cons.prems(3) by simp_all
  note ih = Cons.IH [OF rest_ok Cons.prems(2)]
  show ?case
  proof (cases "is_erase c")
    case True
    show ?thesis
    proof (cases "data = [] \<or> hide")
      case True
      with \<open>is_erase c\<close> neol ih [OF s1(1,2)] s1(3) show ?thesis
        by (auto simp: get_input_loop_unfold [OF rv])
    next
      case False
      obtain s2 where s2: "tn_send [CHR 0x08, CHR '' '', CHR 0x08] ?s1 = (True, s2)"
        "tn_trace s2 = tn_trace ?s1 @ [Send [CHR 0x08, CHR '' '', CHR 0x08]]"
        "tn_recvs s2 = tn_recvs ?s1" "\<forall>b \<in> set (tn_sends s2). b"
        using s1(1) by (rule tn_send_ok)
      from s2(3) s1(2) have r2: "tn_recvs s2 = map Chunk cs @ Chunk e # rest" by simp
      from False \<open>is_erase c\<close> neol ih [OF s2(4) r2, of "butlast data"] s2(1,2) s1(3)
      show ?thesis
        by (simp add: get_input_loop_unfold [OF rv])
    qed
  next
    case False
    obtain s2 where s2: "tn_send (if hide then ''*'' else [c]) ?s1 = (True, s2)"
      "tn_trace s2 = tn_trace ?s1 @ [Send (if hide then ''*'' else [c])]"
      "tn_recvs s2 = tn_recvs ?s1" "\<forall>b \<in> set (tn_sends s2). b"
      using s1(1) by (rule tn_send_ok)
    from s2(3) s1(2) have r2: "tn_recvs s2 = map Chunk cs @ Chunk e # rest" by simp
    from False neol ih [OF s2(4) r2, of "data @ [c]"] s2(1,2) s1(3)
    show ?thesis
      by (simp add: get_input_loop_unfold [OF rv])
  qed
qed

lemma spec_echo_masked:
  "spec_echo True data cs = replicate (length (filter (\<lambda>c. \<not> is_erase c) cs)) (Send ''*'')"
  by (induction cs arbitrary: data) simp_all


lemma quiet_ext_refl: "quiet_ext s s"
  by (simp add: quiet_ext_def)

lemma quiet_ext_trans: "quiet_ext s t \<Longrightarrow> quiet_ext t u \<Longrightarrow> quiet_ext s u"
  by (auto simp: quiet_ext_def)

lemma tn_send_quiet: "quiet_ext s (snd (tn_send d s))"
  by (cases "tn_sends s") (auto simp: tn_send_def quiet_ext_def quiet_def)

lemma tn_send_recvs: "tn_recvs (snd (tn_send d s)) = tn_recvs s"
  by (cases "tn_sends s") (auto simp: tn_send_def)

text \<open>
  A property of the connection that survives the consumption of a received item and every
  \<open>send\<close> survives the input loop.
\<close>

lemma get_input_loop_preserves:
  assumes recv: "\<And>t r rs. P t \<Longrightarrow> tn_recvs t = r # rs \<Longrightarrow> P (t\<lparr>tn_recvs := rs\<rparr>)"
    and send: "\<And>t d. P t \<Longrightarrow> P (snd (tn_send d t))"
  shows "P s \<Longrightarrow> P (snd (get_input_loop hide data s))"
proof (induction "tn_recvs s" arbitrary: hide data s)
  case Nil
  then show ?case by (simp add: get_input_loop_empty)
next
  case (Cons r rs)
  let ?s1 = "s\<lparr>tn_recvs := rs\<rparr>"
  note rv = Cons.hyps(2) [symmetric]
  have p1: "P ?s1" using Cons.prems rv by (rule recv)
  have ih: "P (snd (get_input_loop h d t))" if "P t" "tn_recvs t = rs" for h d t
    using Cons.hyps(1) [of t h d] that by simp
  have ih1: "P (snd (get_input_loop h d ?s1))" for h d
    using p1 by (rule ih) simp
  have ih2: "P (snd (case tn_send x ?s1 of (False, s2) \<Rightarrow> (None, s2)
                       | (True, s2) \<Rightarrow> get_input_loop h d s2))" for x h d
  proof (cases "tn_send x ?s1")
    case (Pair ok s2)
    have "P s2" using send [OF p1, of x] Pair by simp
    moreover have "tn_recvs s2 = rs" using tn_send_recvs [of x ?s1] Pair by simp
    ultimately show ?thesis using Pair by (cases ok) (simp_all add: ih)
  qed
  show ?case
    unfolding get_input_loop_unfold [OF rv]
    by (cases r) (simp_all add: p1 ih1 ih2)
qed

lemma get_input_snd: "snd (get_input hide s) = snd (get_input_loop hide [] s)"
  by (simp add: get_input_def split: prod.split option.split)

lemma get_input_quiet: "quiet_ext s (snd (get_input hide s))"
  unfolding get_input_snd
proof (rule get_input_loop_preserves [where P = "quiet_ext s"])
  show "quiet_ext s (t\<lparr>tn_recvs := rs\<rparr>)" if "quiet_ext s t" for t rs
    using that by (simp add: quiet_ext_def)
  show "quiet_ext s (snd (tn_send d t))" if "quiet_ext s t" for t d
    using that tn_send_quiet by (rule quiet_ext_trans)
  show "quiet_ext s s" by (rule quiet_ext_refl)
qed

lemma event_type_stamp:
  "map_of e ''event_type'' = Some (PStr t) \<Longrightarrow> event_type (stamp svc e) = t"
  by (simp add: event_type_def stamp_def dict_update_def update_conv')

lemma tn_log_event_quiet:
  "map_of e ''event_type'' = Some (PStr t) \<Longrightarrow> t \<noteq> ''disconnect'' \<Longrightarrow>
     quiet_ext s (tn_log_event e s)"
  by (simp add: tn_log_event_def quiet_ext_def quiet_def event_type_stamp)

lemma handle_login_attempt_quiet: "quiet_ext s (handle_login_attempt ip u p s)"
proof -
  have "quiet_ext (s\<lparr>tn_login_attempts := a, tn_common_usernames := b, tn_common_passwords := c\<rparr>)
          (tn_log_event e (s\<lparr>tn_login_attempts := a, tn_common_usernames := b,
             tn_common_passwords := c\<rparr>))"
    if "map_of e ''event_type'' = Some (PStr ''login_attempt'')" for a b c e
    using that by (rule tn_log_event_quiet) simp
  then have "quiet_ext (s\<lparr>tn_login_attempts := tn_login_attempts s + 1,
                tn_common_usernames := bump u (tn_common_usernames s),
                tn_common_passwords := bump p (tn_common_passwords s)\<rparr>)
              (handle_login_attempt ip u p s)"
    by (simp add: handle_login_attempt_def)
  moreover have "quiet_ext s (s\<lparr>tn_login_attempts := tn_login_attempts s + 1,
                tn_common_usernames := bump u (tn_common_usernames s),
                tn_common_passwords := bump p (tn_common_passwords s)\<rparr>)"
    by (simp add: quiet_ext_def)
  ultimately show ?thesis by (rule quiet_ext_trans [rotated])
qed

lemma shell_loop_quiet: "quiet_ext s (shell_loop ip u s)"
proof (induction ip u s rule: shell_loop.induct)
  case (1 ip u s)
  obtain r s1 where g: "get_input False s = (r, s1)" by (cases "get_input False s")
  have q1: "quiet_ext s s1" using get_input_quiet [of s False] g by simp
  show ?case
  proof (cases r)
    case None
    with g q1 show ?thesis by (subst shell_loop.simps) simp
  next
    case (Some command)
    show ?thesis
    proof (cases "command = []")
      case True
      with g q1 Some show ?thesis by (subst shell_loop.simps) simp
    next
      case False
      define s2 where "s2 = s1\<lparr>tn_commands_executed := bump command (tn_commands_executed s1)\<rparr>"
      define s3 where "s3 = tn_log_event (command_event ip u command) s2"
      obtain ok4 s4 where t4: "tn_send (py_encode (simulate_command_response command)) s3 = (ok4, s4)"
        by (cases "tn_send (py_encode (simulate_command_response command)) s3")
      obtain ok5 s5 where t5: "tn_send (py_encode (shell_prompt u)) s4 = (ok5, s5)"
        by (cases "tn_send (py_encode (shell_prompt u)) s4")
      have q2: "quiet_ext s1 s2" by (simp add: s2_def quiet_ext_def)
      have q3: "quiet_ext s2 s3"
        unfolding s3_def
        by (rule tn_log_event_quiet [where t = "''command_execution''"])
           (simp add: command_event_def, simp)
      have q4: "quiet_ext s3 s4"
        using tn_send_quiet [where s = s3 and d = "py_encode (simulate_command_response command)"] t4 by simp
      have q5: "quiet_ext s4 s5"
        using tn_send_quiet [where s = s4 and d = "py_encode (shell_prompt u)"] t5 by simp
      have q14: "quiet_ext s s4"
        using q1 q2 q3 q4 by (blast intro: quiet_ext_trans)
      have q15: "quiet_ext s s5"
        using q14 q5 by (rule quiet_ext_trans)
      have ih: "quiet_ext s5 (shell_loop ip u s5)"
        if "ok4" "ok5" "\<not> 10 < length (py_split command)"
        using "1.IH" [OF g [symmetric] Some False s2_def s3_def t4 [symmetric] _ t5 [symmetric]] that
        by simp
      have eq: "shell_loop ip u s =
          (if \<not> ok4 then s4 else if \<not> ok5 then s5
           else if 10 < length (py_split command) then s5 else shell_loop ip u s5)"
        using g Some False t4 t5
        by (subst shell_loop.simps) (simp add: s2_def s3_def Let_def)
      show ?thesis
        unfolding eq using q14 q15 ih by (auto intro: quiet_ext_trans)
    qed
  qed
qed


lemma send_case_preserves:
  assumes "quiet_ext s0 s" "\<And>t. quiet_ext s0 t \<Longrightarrow> quiet_ext s0 (f t)"
  shows "quiet_ext s0 (case tn_send d s of (False, s1) \<Rightarrow> s1 | (True, s1) \<Rightarrow> f s1)"
proof (cases "tn_send d s")
  case (Pair ok s1)
  have "quiet_ext s s1" using tn_send_quiet [where s = s and d = d] Pair by simp
  with assms(1) have "quiet_ext s0 s1" by (rule quiet_ext_trans)
  with assms(2) Pair show ?thesis by (cases ok) simp_all
qed

lemma input_case_preserves:
  assumes "quiet_ext s0 s" "\<And>v t. quiet_ext s0 t \<Longrightarrow> quiet_ext s0 (f v t)"
  shows "quiet_ext s0 (case get_input h s of (None, s1) \<Rightarrow> s1
           | (Some v, s1) \<Rightarrow> if v = [] then s1 else f v s1)"
proof (cases "get_input h s")
  case (Pair r s1)
  have "quiet_ext s s1" using get_input_quiet [of s h] Pair by simp
  with assms(1) have "quiet_ext s0 s1" by (rule quiet_ext_trans)
  with assms(2) Pair show ?thesis by (cases r) simp_all
qed

lemma simulate_shell_quiet:
  assumes "quiet_ext s0 s"
  shows "quiet_ext s0 (simulate_shell ip u s)"
  unfolding simulate_shell_def using assms
proof (rule send_case_preserves)
  show "quiet_ext s0 (shell_loop ip u t)" if "quiet_ext s0 t" for t
    using that shell_loop_quiet by (rule quiet_ext_trans)
qed

lemma login_preserves:
  "quiet_ext s0 t \<Longrightarrow> quiet_ext s0 (handle_login_attempt ip u p t)"
  by (erule quiet_ext_trans) (rule handle_login_attempt_quiet)

lemma sleep_preserves: "quiet_ext s0 t \<Longrightarrow> quiet_ext s0 (tn_sleep n t)"
  by (auto simp: quiet_ext_def tn_sleep_def quiet_def)

lemma handle_client_body_quiet: "quiet_ext s (handle_client_body ip s)"
  unfolding handle_client_body_def Let_def
  by (intro send_case_preserves input_case_preserves simulate_shell_quiet sleep_preserves
        login_preserves quiet_ext_refl)

lemma quiet_no_disconnect: "list_all quiet mid \<Longrightarrow> filter is_disconnect mid = []"
  by (induction mid) (auto simp: quiet_def is_disconnect_def split: action.splits)

lemma quiet_no_close: "list_all quiet mid \<Longrightarrow> Close \<notin> set mid"
  by (induction mid) (auto simp: quiet_def)

text \<open>
  Claim C4. \<open>handle_login_attempt\<close> logs one \<open>login_attempt\<close> event carrying the
  credentials; its \<open>attack_type\<close> and \<open>threat_level\<close> are \<open>iot_botnet\<close> and \<open>high\<close>
  when the pair is in the fixed list \<open>iot_credentials\<close>, and \<open>brute_force\<close> and
  \<open>medium\<close> for every other pair. The list has fifteen different pairs, and
  (admin, admin) is one of them.
\<close>

theorem telnet_login_classification:
  "tn_trace (handle_login_attempt client_ip username password s) =
     tn_trace s @
     [Log (stamp ''telnet''
        [(''event_type'', PStr ''login_attempt''),
         (''source_ip'', PStr client_ip),
         (''username'', PStr username),
         (''password'', PStr password),
         (''success'', PBool False),
         (''attack_type'',
            PStr (if (username, password) \<in> set iot_credentials then ''iot_botnet''
                  else ''brute_force'')),
         (''threat_level'',
            PStr (if (username, password) \<in> set iot_credentials then ''high''
                  else ''medium''))])] \<and>
   length iot_credentials = 15 \<and> distinct iot_credentials \<and>
   (''admin'', ''admin'') \<in> set iot_credentials"
proof -
  have "length iot_credentials = 15 \<and> distinct iot_credentials \<and>
        (''admin'', ''admin'') \<in> set iot_credentials"
    by (simp add: iot_credentials_def)
  then show ?thesis
    by (simp add: handle_login_attempt_def tn_log_event_def)
qed

theorem telnet_login_classification_witness:
  "(''admin'', ''admin'') \<in> set iot_credentials \<and>
   (''alice'', ''secret'') \<notin> set iot_credentials \<and>
   tn_trace (handle_login_attempt ''10.0.0.1'' ''admin'' ''admin'' (telnet_init [] [])) =
     [Log (stamp ''telnet''
        [(''event_type'', PStr ''login_attempt''), (''source_ip'', PStr ''10.0.0.1''),
         (''username'', PStr ''admin''), (''password'', PStr ''admin''),
         (''success'', PBool False), (''attack_type'', PStr ''iot_botnet''),
         (''threat_level'', PStr ''high'')])] \<and>
   tn_trace (handle_login_attempt ''10.0.0.1'' ''alice'' ''secret'' (telnet_init [] [])) =
     [Log (stamp ''telnet''
        [(''event_type'', PStr ''login_attempt''), (''source_ip'', PStr ''10.0.0.1''),
         (''username'', PStr ''alice''), (''password'', PStr ''secret''),
         (''success'', PBool False), (''attack_type'', PStr ''brute_force''),
         (''threat_level'', PStr ''medium'')])]"
proof -
  have a: "(''admin'', ''admin'') \<in> set iot_credentials"
    and b: "(''alice'', ''secret'') \<notin> set iot_credentials"
    by (simp_all add: iot_credentials_def)
  have t: "tn_trace (telnet_init [] []) = []"
    by (simp add: telnet_init_def)
  show ?thesis
    using a b
      telnet_login_classification [of "''10.0.0.1''" "''admin''" "''admin''" "telnet_init [] []"]
      telnet_login_classification [of "''10.0.0.1''" "''alice''" "''secret''" "telnet_init [] []"]
    by (simp add: t)
qed

text \<open>
  Claim C5. On input bytes \<open>cs\<close> free of CR and LF followed by a CR or LF, with every
  \<open>send\<close> succeeding, the editor loop returns the buffer that \<open>spec_line\<close> describes
  (backspace and DEL remove the last buffered byte, and do nothing to an empty buffer),
  echoes what \<open>spec_echo\<close> describes (plain mode: each accepted byte, and backspace,
  space, backspace for each deletion; password mode: one \<open>*\<close> for each accepted byte and
  nothing else), and leaves the rest of the input unread. In plain mode the input
  \<open>abc\<close>, backspace, \<open>d\<close>, CR gives the line \<open>abd\<close>.
\<close>

theorem telnet_line_editor:
  "((\<forall>c \<in> set cs. \<not> is_eol c) \<and> is_eol e \<and> (\<forall>b \<in> set (tn_sends s). b) \<and>
      tn_recvs s = map Chunk cs @ Chunk e # rest \<longrightarrow>
      fst (get_input_loop hide data s) = Some (spec_line data cs) \<and>
      tn_trace (snd (get_input_loop hide data s)) = tn_trace s @ spec_echo hide data cs \<and>
      tn_recvs (snd (get_input_loop hide data s)) = rest) \<and>
   spec_echo True data cs = replicate (length (filter (\<lambda>c. \<not> is_erase c) cs)) (Send ''*'') \<and>
   spec_line [] (CHR 0x08 # cs) = spec_line [] cs \<and>
   spec_line [] (CHR 0x7F # cs) = spec_line [] cs \<and>
   fst (get_input False
          (telnet_init (map Chunk (''abc'' @ [CHR 0x08] @ ''d'' @ [CHR 0x0D])) [])) = Some ''abd''"
proof (intro conjI impI)
  assume "(\<forall>c \<in> set cs. \<not> is_eol c) \<and> is_eol e \<and> (\<forall>b \<in> set (tn_sends s). b) \<and>
      tn_recvs s = map Chunk cs @ Chunk e # rest"
  then have h: "\<forall>c \<in> set cs. \<not> is_eol c" "is_eol e" "\<forall>b \<in> set (tn_sends s). b"
    "tn_recvs s = map Chunk cs @ Chunk e # rest"
    by blast+
  note r = get_input_loop_edits [OF h, of hide data]
  from r show "fst (get_input_loop hide data s) = Some (spec_line data cs)" by simp
  from r show "tn_trace (snd (get_input_loop hide data s)) = tn_trace s @ spec_echo hide data cs"
    by simp
  from r show "tn_recvs (snd (get_input_loop hide data s)) = rest" by simp
next
  show "spec_echo True data cs = replicate (length (filter (\<lambda>c. \<not> is_erase c) cs)) (Send ''*'')"
    by (rule spec_echo_masked)
  show "spec_line [] (CHR 0x08 # cs) = spec_line [] cs"
    by (simp add: is_erase_def)
  show "spec_line [] (CHR 0x7F # cs) = spec_line [] cs"
    by (simp add: is_erase_def)
  show "fst (get_input False
          (telnet_init (map Chunk (''abc'' @ [CHR 0x08] @ ''d'' @ [CHR 0x0D])) [])) = Some ''abd''"
    by code_simp
qed

theorem telnet_line_editor_witness:
  "list_all (\<lambda>c. \<not> is_eol c) (''abc'' @ [CHR 0x08] @ ''d'') \<and> is_eol (CHR 0x0D) \<and>
   fst (get_input_loop False []
          (telnet_init (map Chunk (''abc'' @ [CHR 0x08] @ ''d'') @ [Chunk CHR 0x0D]) []))
     = Some ''abd'' \<and>
   tn_trace (snd (get_input_loop False []
          (telnet_init (map Chunk (''abc'' @ [CHR 0x08] @ ''d'') @ [Chunk CHR 0x0D]) [])))
     = [Send ''a'', Send ''b'', Send ''c'', Send [CHR 0x08, CHR '' '', CHR 0x08], Send ''d''] \<and>
   tn_trace (snd (get_input_loop True []
          (telnet_init (map Chunk (''abc'' @ [CHR 0x08] @ ''d'') @ [Chunk CHR 0x0D]) [])))
     = [Send ''*'', Send ''*'', Send ''*'', Send ''*'']"
proof -
  let ?cs = "''abc'' @ [CHR 0x08] @ ''d''"
  let ?s = "telnet_init (map Chunk ?cs @ [Chunk CHR 0x0D]) []"
  have h1: "\<forall>c \<in> set ?cs. \<not> is_eol c" and h2: "is_eol (CHR 0x0D)"
    and h0: "list_all (\<lambda>c. \<not> is_eol c) ?cs"
    by (simp_all add: is_eol_def)
  have h3: "\<forall>b \<in> set (tn_sends ?s). b"
    and h4: "tn_recvs ?s = map Chunk ?cs @ Chunk (CHR 0x0D) # []"
    and t: "tn_trace ?s = []"
    by (simp_all add: telnet_init_def)
  have v1: "spec_line [] ?cs = ''abd''"
    and v2: "spec_echo False [] ?cs =
       [Send ''a'', Send ''b'', Send ''c'', Send [CHR 0x08, CHR '' '', CHR 0x08], Send ''d'']"
    and v3: "spec_echo True [] ?cs = [Send ''*'', Send ''*'', Send ''*'', Send ''*'']"
    by (simp_all add: is_erase_def)
  have p: "fst (get_input_loop False [] ?s) = Some (spec_line [] ?cs) \<and>
      tn_trace (snd (get_input_loop False [] ?s)) = tn_trace ?s @ spec_echo False [] ?cs \<and>
      tn_recvs (snd (get_input_loop False [] ?s)) = []"
    by (rule mp [OF conjunct1 [OF telnet_line_editor [of ?cs "CHR 0x0D" ?s "[]" False "[]"]]])
       (intro conjI h1 h2 h3 h4)
  have m: "fst (get_input_loop True [] ?s) = Some (spec_line [] ?cs) \<and>
      tn_trace (snd (get_input_loop True [] ?s)) = tn_trace ?s @ spec_echo True [] ?cs \<and>
      tn_recvs (snd (get_input_loop True [] ?s)) = []"
    by (rule mp [OF conjunct1 [OF telnet_line_editor [of ?cs "CHR 0x0D" ?s "[]" True "[]"]]])
       (intro conjI h1 h2 h3 h4)
  have r1: "fst (get_input_loop False [] ?s) = Some ''abd''"
    using p by (simp only: v1)
  have r2: "tn_trace (snd (get_input_loop False [] ?s)) =
       [Send ''a'', Send ''b'', Send ''c'', Send [CHR 0x08, CHR '' '', CHR 0x08], Send ''d'']"
    using p by (simp only: v2 t append_Nil)
  have r3: "tn_trace (snd (get_input_loop True [] ?s)) =
       [Send ''*'', Send ''*'', Send ''*'', Send ''*'']"
    using m by (simp only: v3 t append_Nil)
  show ?thesis
    by (intro conjI h0 h2 r1 r2 r3)
qed

text \<open>
  Claim C8. Whatever the peer sends, and whichever reads time out or fail and whichever
  sends raise, the actions of \<open>handle_client\<close> on a connection are: the connection
  event, then actions that neither close the socket nor log a disconnect event, then the
  closing of the socket, then one disconnect event. So exactly one disconnect event is
  logged for the connection, after the one call of \<open>close\<close>.
\<close>

theorem telnet_one_disconnect_after_close:
  "\<exists>mid. tn_trace (handle_client client_addr s) =
           tn_trace s @
           Log (stamp ''telnet''
                  (connection_event (fst client_addr) (snd client_addr) (tn_port s))) # mid @
           [Close, Log (stamp ''telnet'' (disconnect_event (fst client_addr)))] \<and>
         list_all quiet mid \<and>
         filter is_disconnect (drop (length (tn_trace s)) (tn_trace (handle_client client_addr s)))
           = [Log (stamp ''telnet'' (disconnect_event (fst client_addr)))] \<and>
         filter (\<lambda>a. a = Close) (drop (length (tn_trace s)) (tn_trace (handle_client client_addr s)))
           = [Close]"
proof -
  define ip where "ip = fst client_addr"
  define s1 where "s1 = s\<lparr>tn_total_connections := tn_total_connections s + 1,
                  tn_unique_ips := insert ip (tn_unique_ips s)\<rparr>"
  define conn where "conn = Log (stamp ''telnet'' (connection_event ip (snd client_addr) (tn_port s)))"
  define disc where "disc = Log (stamp ''telnet'' (disconnect_event ip))"
  define s2 where "s2 = tn_log_event (connection_event ip (snd client_addr) (tn_port s1)) s1"
  define s3 where "s3 = handle_client_body ip s2"
  have hc: "handle_client client_addr s = tn_log_event (disconnect_event ip) (tn_close s3)"
    by (simp add: handle_client_def Let_def s3_def s2_def s1_def ip_def)
  have t2: "tn_trace s2 = tn_trace s @ [conn]"
    by (simp add: s2_def s1_def tn_log_event_def conn_def)
  obtain mid where mid: "tn_trace s3 = tn_trace s2 @ mid" "list_all quiet mid"
    using handle_client_body_quiet [of s2 ip] unfolding s3_def quiet_ext_def by blast
  have tr: "tn_trace (handle_client client_addr s) = tn_trace s @ conn # mid @ [Close, disc]"
    by (simp add: hc tn_log_event_def tn_close_def mid(1) t2 disc_def)
  have dq: "is_disconnect disc" "\<not> is_disconnect conn" "\<not> is_disconnect Close"
    by (simp_all add: disc_def conn_def is_disconnect_def event_type_stamp disconnect_event_def
          connection_event_def)
  have cq: "disc \<noteq> Close" "conn \<noteq> Close"
    by (simp_all add: disc_def conn_def)
  have f1: "filter is_disconnect (conn # mid @ [Close, disc]) = [disc]"
    using dq quiet_no_disconnect [OF mid(2)] by simp
  have f2: "filter (\<lambda>a. a = Close) (conn # mid @ [Close, disc]) = [Close]"
    using cq quiet_no_close [OF mid(2)] by (auto simp: filter_empty_conv)
  show ?thesis
    using tr mid(2) f1 f2 unfolding conn_def disc_def ip_def by (intro exI [of _ mid]) simp
qed

theorem telnet_one_disconnect_after_close_witness:
  "tn_trace (handle_client (''10.0.0.1'', 4444)
      (telnet_init [Chunk CHR ''r'', Timeout] [True, False])) =
     [Log (stamp ''telnet'' (connection_event ''10.0.0.1'' 4444 23)),
      Send (''Ubuntu 20.04.3 LTS'' @ crlf @ ''login: ''),
      Close,
      Log (stamp ''telnet'' (disconnect_event ''10.0.0.1''))] \<and>
   filter is_disconnect (tn_trace (handle_client (''10.0.0.1'', 4444)
      (telnet_init [Chunk CHR ''r'', Timeout] [True, False]))) =
     [Log (stamp ''telnet'' (disconnect_event ''10.0.0.1''))]"
proof -
  have e: "tn_trace (handle_client (''10.0.0.1'', 4444)
      (telnet_init [Chunk CHR ''r'', Timeout] [True, False])) =
     [Log (stamp ''telnet'' (connection_event ''10.0.0.1'' 4444 23)),
      Send (''Ubuntu 20.04.3 LTS'' @ crlf @ ''login: ''),
      Close,
      Log (stamp ''telnet'' (disconnect_event ''10.0.0.1''))]"
    by code_simp
  have t: "tn_trace (telnet_init [Chunk CHR ''r'', Timeout] [True, False]) = []"
    by (simp add: telnet_init_def)
  from telnet_one_disconnect_after_close
    [of "(''10.0.0.1'', 4444)" "telnet_init [Chunk CHR ''r'', Timeout] [True, False]"]
  have "filter is_disconnect (tn_trace (handle_client (''10.0.0.1'', 4444)
      (telnet_init [Chunk CHR ''r'', Timeout] [True, False]))) =
     [Log (stamp ''telnet'' (disconnect_event ''10.0.0.1''))]"
    by (auto simp: t)
  with e show ?thesis by (intro conjI)
qed

section \<open>Decoding and encoding of the input\<close>

text \<open>
  Encoding and decoding fit together: what \<open>encode\<close> produces, \<open>decode\<close> reads back, so
  a command the decoy echoes in its response reaches the peer as the bytes the peer sent
  for it.
\<close>

lemma decode_ignore_Cons_ascii:
  "(of_char b :: nat) < 128 \<Longrightarrow> decode_ignore (b # bs) = b # decode_ignore bs"
  by (cases bs) simp_all

lemma of_char_lt_256: "(of_char c :: nat) < 256"
  by (cases c) simp

lemma encode_char_high:
  assumes "128 \<le> (of_char c :: nat)"
  shows "\<exists>l k. encode_char c = [l, k] \<and> (of_char l :: nat) = 192 + of_char c div 64 \<and>
      (of_char k :: nat) = 128 + of_char c mod 64"
proof -
  define n where "n = (of_char c :: nat)"
  have n: "128 \<le> n" "n < 256"
    using assms of_char_lt_256 [of c] by (simp_all add: n_def)
  have d: "n div 64 < 4"
    using n(2) by simp
  have m: "n mod 64 < 64"
    by simp
  have lead: "(192 + n div 64) mod 256 = 192 + n div 64"
    using d by simp
  have cont: "(128 + n mod 64) mod 256 = 128 + n mod 64"
    using m by simp
  have e: "encode_char c = [char_of (192 + n div 64), char_of (128 + n mod 64)]"
    using n(1) by (simp add: encode_char_def n_def [symmetric] Let_def)
  show ?thesis
    unfolding e n_def [symmetric] by (simp add: lead cont)
qed

lemma decode_ignore_two_bytes:
  assumes "128 \<le> (of_char c :: nat)"
  shows "decode_ignore (encode_char c @ bs) = c # decode_ignore bs"
proof -
  define n where "n = (of_char c :: nat)"
  have n: "128 \<le> n" "n < 256"
    using assms of_char_lt_256 [of c] by (simp_all add: n_def)
  obtain l k where e: "encode_char c = [l, k]"
    and l: "(of_char l :: nat) = 192 + n div 64" and k: "(of_char k :: nat) = 128 + n mod 64"
    using encode_char_high [OF assms] unfolding n_def by blast
  have d: "n div 64 = 2 \<or> n div 64 = 3"
  proof -
    have "2 * 64 \<le> n" "n < 4 * 64" using n by simp_all
    then have "2 \<le> n div 64" "n div 64 < 4"
      by (simp_all add: less_mult_imp_div_less div_greater_zero_iff le_div_geq)
    then show ?thesis by linarith
  qed
  have c: "char_of n = c"
    by (simp add: n_def)
  have c1: "\<not> (of_char l :: nat) < 128"
    by (simp add: l)
  have c2: "(of_char l :: nat) = 194 \<or> (of_char l :: nat) = 195"
    using d by (simp add: l)
  have c3: "128 \<le> (of_char k :: nat)" "(of_char k :: nat) < 192"
    by (simp_all add: k)
  have v: "((of_char l :: nat) - 192) * 64 + ((of_char k :: nat) - 128) = n"
    by (simp add: l k)
  have "decode_ignore (l # k # bs) =
      (let nb = (of_char l :: nat); nc = (of_char k :: nat)
       in if nb < 128 then l # decode_ignore (k # bs)
          else if (nb = 194 \<or> nb = 195) \<and> 128 \<le> nc \<and> nc < 192
          then char_of ((nb - 192) * 64 + (nc - 128)) # decode_ignore bs
          else decode_ignore (k # bs))"
    by (rule decode_ignore.simps(3))
  also have "\<dots> = char_of (((of_char l :: nat) - 192) * 64 + ((of_char k :: nat) - 128)) # decode_ignore bs"
    unfolding Let_def using c1 c2 c3 by (simp only: if_False if_True simp_thms)
  finally show ?thesis
    unfolding e v c by simp
qed

lemma decode_encode: "decode_ignore (py_encode s) = s"
proof (induction s)
  case Nil
  then show ?case by (simp add: py_encode_def)
next
  case (Cons c s)
  show ?case
  proof (cases "(of_char c :: nat) < 128")
    case True
    then have "py_encode (c # s) = c # py_encode s"
      by (simp add: py_encode_def encode_char_def)
    with True Cons show ?thesis
      by (simp add: decode_ignore_Cons_ascii)
  next
    case False
    then have "decode_ignore (encode_char c @ py_encode s) = c # decode_ignore (py_encode s)"
      by (intro decode_ignore_two_bytes) simp
    with Cons show ?thesis
      by (simp add: py_encode_def)
  qed
qed

text \<open>
  The bytes of \<open>caf\<close> followed by the two bytes 0xC3 0xA9 are read as the command of
  four code points that ends in U+00E9; the response names it, encoded again.
\<close>

lemma shell_loop_decodes_utf8:
  "tn_trace (shell_loop ''10.0.0.1'' ''root''
      (telnet_init (map Chunk [CHR ''c'', CHR ''a'', CHR ''f'', CHR 0xC3, CHR 0xA9, CHR 0x0D]) [])) =
     [Send ''c'', Send ''a'', Send ''f'', Send [CHR 0xC3], Send [CHR 0xA9],
      Log (stamp ''telnet''
        (command_event ''10.0.0.1'' ''root'' [CHR ''c'', CHR ''a'', CHR ''f'', CHR 0xE9])),
      Send (crlf @ [CHR ''c'', CHR ''a'', CHR ''f'', CHR 0xC3, CHR 0xA9] @
            '': command not found'' @ crlf),
      Send ''root@honeypot:~$ '']"
  by code_simp

section \<open>Properties of the shell loop\<close>

lemma tn_send_trace:
  "tn_send d s = (ok, s') \<Longrightarrow>
     tn_trace s' = tn_trace s @ (if ok then [Send d] else []) \<and> tn_recvs s' = tn_recvs s"
  by (cases "tn_sends s") (auto simp: tn_send_def split: if_splits)

lemma tn_send_succeeds:
  "\<forall>b \<in> set (tn_sends s). b \<Longrightarrow> tn_send d s = (ok, s') \<Longrightarrow>
     ok \<and> (\<forall>b \<in> set (tn_sends s'). b)"
  by (cases "tn_sends s") (auto simp: tn_send_def split: if_splits)

lemma shell_loop_unfold:
  assumes "get_input False s = (Some command, s1)" "command \<noteq> []"
    and "tn_send (py_encode (simulate_command_response command))
           (tn_log_event (command_event ip u command)
              (s1\<lparr>tn_commands_executed := bump command (tn_commands_executed s1)\<rparr>)) = (ok4, s4)"
    and "tn_send (py_encode (shell_prompt u)) s4 = (ok5, s5)"
  shows "shell_loop ip u s =
     (if \<not> ok4 then s4 else if \<not> ok5 then s5
      else if 10 < length (py_split command) then s5 else shell_loop ip u s5)"
  using assms by (subst shell_loop.simps) (simp add: Let_def)

lemma shell_loop_stop:
  assumes "get_input False s = (r, s1)" "r = None \<or> r = Some []"
  shows "shell_loop ip u s = s1"
  using assms by (subst shell_loop.simps) auto

text \<open>
  Claim C6, as amended. One turn of the shell loop: when the read gives no line or the
  empty line the loop ends with nothing logged or sent. Otherwise the command event is
  logged and the response is sent; the loop ends there when that \<open>send\<close> raises, ends
  after the response when the \<open>send\<close> of the prompt raises, ends after response and
  prompt when the line has more than ten words, and in every other case goes on with the
  next read. When no \<open>send\<close> raises, both are sent, so the loop then ends exactly on an
  empty or failed read or a line of more than ten words. \<open>exit\<close>, \<open>quit\<close> and
  \<open>logout\<close> are one word each and get the reply \<open>logout\<close>. The loop itself is a total
  function: its termination is proved with its definition.
\<close>

theorem shell_loop_exits:
  "(get_input False s = (r, s1) \<and> (r = None \<or> r = Some []) \<longrightarrow> shell_loop ip u s = s1) \<and>
   (get_input False s = (Some command, s1) \<and> command \<noteq> [] \<and>
    tn_send (py_encode (simulate_command_response command))
      (tn_log_event (command_event ip u command)
         (s1\<lparr>tn_commands_executed := bump command (tn_commands_executed s1)\<rparr>)) = (ok4, s4) \<and>
    tn_send (py_encode (shell_prompt u)) s4 = (ok5, s5) \<longrightarrow>
      shell_loop ip u s =
        (if \<not> ok4 then s4 else if \<not> ok5 then s5
         else if 10 < length (py_split command) then s5 else shell_loop ip u s5) \<and>
      tn_trace s4 = tn_trace s1 @ Log (stamp ''telnet'' (command_event ip u command)) #
        (if ok4 then [Send (py_encode (simulate_command_response command))] else []) \<and>
      tn_trace s5 = tn_trace s4 @ (if ok5 then [Send (py_encode (shell_prompt u))] else []) \<and>
      tn_recvs s5 = tn_recvs s1 \<and>
      ((\<forall>b \<in> set (tn_sends s1). b) \<longrightarrow> ok4 \<and> ok5)) \<and>
   (c \<in> {''exit'', ''quit'', ''logout''} \<longrightarrow>
      simulate_command_response c = crlf @ ''logout'' @ crlf \<and> length (py_split c) = 1)"
proof (intro conjI; (intro impI)?; (intro conjI)?)
  assume "get_input False s = (r, s1) \<and> (r = None \<or> r = Some [])"
  then show "shell_loop ip u s = s1"
    using shell_loop_stop by blast
next
  assume "c \<in> {''exit'', ''quit'', ''logout''}"
  then consider "c = ''exit''" | "c = ''quit''" | "c = ''logout''" by blast
  then have "simulate_command_response c = crlf @ ''logout'' @ crlf \<and> length (py_split c) = 1"
    by cases (simp_all, code_simp+)
  then show "simulate_command_response c = crlf @ ''logout'' @ crlf"
    and "length (py_split c) = 1" by simp_all
next
  define s3 where "s3 = tn_log_event (command_event ip u command)
         (s1\<lparr>tn_commands_executed := bump command (tn_commands_executed s1)\<rparr>)"
  assume a: "get_input False s = (Some command, s1) \<and> command \<noteq> [] \<and>
    tn_send (py_encode (simulate_command_response command))
      (tn_log_event (command_event ip u command)
         (s1\<lparr>tn_commands_executed := bump command (tn_commands_executed s1)\<rparr>)) = (ok4, s4) \<and>
    tn_send (py_encode (shell_prompt u)) s4 = (ok5, s5)"
  then have g: "get_input False s = (Some command, s1)" and ne: "command \<noteq> []"
    and t4: "tn_send (py_encode (simulate_command_response command)) s3 = (ok4, s4)"
    and t5: "tn_send (py_encode (shell_prompt u)) s4 = (ok5, s5)"
    by (simp_all add: s3_def)
  have tr3: "tn_trace s3 = tn_trace s1 @ [Log (stamp ''telnet'' (command_event ip u command))]"
    and rv3: "tn_recvs s3 = tn_recvs s1" and sn3: "tn_sends s3 = tn_sends s1"
    by (simp_all add: s3_def tn_log_event_def)
  show "shell_loop ip u s =
        (if \<not> ok4 then s4 else if \<not> ok5 then s5
         else if 10 < length (py_split command) then s5 else shell_loop ip u s5)"
    using g ne t4 [unfolded s3_def] t5 by (rule shell_loop_unfold)
  show "tn_trace s4 = tn_trace s1 @ Log (stamp ''telnet'' (command_event ip u command)) #
        (if ok4 then [Send (py_encode (simulate_command_response command))] else [])"
    using tn_send_trace [OF t4] by (simp add: tr3)
  show "tn_trace s5 = tn_trace s4 @ (if ok5 then [Send (py_encode (shell_prompt u))] else [])"
    using tn_send_trace [OF t5] by simp
  show "tn_recvs s5 = tn_recvs s1"
    using tn_send_trace [OF t4] tn_send_trace [OF t5] by (simp add: rv3)
  show "(\<forall>b \<in> set (tn_sends s1). b) \<longrightarrow> ok4 \<and> ok5"
  proof
    assume "\<forall>b \<in> set (tn_sends s1). b"
    then have "\<forall>b \<in> set (tn_sends s3). b" unfolding sn3 .
    from tn_send_succeeds [OF this t4]
    have o4: "ok4" and "\<forall>b \<in> set (tn_sends s4). b" by blast+
    from tn_send_succeeds [OF this(2) t5] have "ok5" by blast
    with o4 show "ok4 \<and> ok5" by blast
  qed
qed

theorem shell_loop_exits_witness:
  "fst (get_input False (telnet_init (map Chunk (''exit'' @ [CHR 0x0D])) [])) = Some ''exit'' \<and>
   shell_loop ''10.0.0.1'' ''root'' (telnet_init (map Chunk (''exit'' @ [CHR 0x0D])) []) =
     shell_loop ''10.0.0.1'' ''root''
       (snd (tn_send (py_encode (shell_prompt ''root''))
          (snd (tn_send (py_encode (simulate_command_response ''exit''))
             (tn_log_event (command_event ''10.0.0.1'' ''root'' ''exit'')
                (snd (get_input False (telnet_init (map Chunk (''exit'' @ [CHR 0x0D])) []))
                   \<lparr>tn_commands_executed := bump ''exit''
                      (tn_commands_executed
                         (snd (get_input False
                            (telnet_init (map Chunk (''exit'' @ [CHR 0x0D])) []))))\<rparr>)))))) \<and>
   tn_trace (shell_loop ''10.0.0.1'' ''root'' (telnet_init (map Chunk (''exit'' @ [CHR 0x0D])) [])) =
     [Send ''e'', Send ''x'', Send ''i'', Send ''t'',
      Log (stamp ''telnet'' (command_event ''10.0.0.1'' ''root'' ''exit'')),
      Send (crlf @ ''logout'' @ crlf), Send ''root@honeypot:~$ '']"
proof -
  let ?s0 = "telnet_init (map Chunk (''exit'' @ [CHR 0x0D])) []"
  let ?s1 = "snd (get_input False ?s0)"
  let ?s3 = "tn_log_event (command_event ''10.0.0.1'' ''root'' ''exit'')
                (?s1\<lparr>tn_commands_executed := bump ''exit'' (tn_commands_executed ?s1)\<rparr>)"
  let ?s4 = "snd (tn_send (py_encode (simulate_command_response ''exit'')) ?s3)"
  let ?s5 = "snd (tn_send (py_encode (shell_prompt ''root'')) ?s4)"
  have g: "fst (get_input False ?s0) = Some ''exit''"
    by code_simp
  have o4: "fst (tn_send (py_encode (simulate_command_response ''exit'')) ?s3) = True"
    by code_simp
  have o5: "fst (tn_send (py_encode (shell_prompt ''root'')) ?s4) = True"
    by code_simp
  have w: "\<not> 10 < length (py_split ''exit'')"
    by code_simp
  have tr: "tn_trace (shell_loop ''10.0.0.1'' ''root'' ?s0) =
     [Send ''e'', Send ''x'', Send ''i'', Send ''t'',
      Log (stamp ''telnet'' (command_event ''10.0.0.1'' ''root'' ''exit'')),
      Send (crlf @ ''logout'' @ crlf), Send ''root@honeypot:~$ '']"
    by code_simp
  have h: "get_input False ?s0 = (Some ''exit'', ?s1) \<and> ''exit'' \<noteq> [] \<and>
      tn_send (py_encode (simulate_command_response ''exit'')) ?s3 = (True, ?s4) \<and>
      tn_send (py_encode (shell_prompt ''root'')) ?s4 = (True, ?s5)"
    using g o4 o5 by (simp add: prod_eq_iff)
  from shell_loop_exits [of ?s0 "Some ''exit''" ?s1 "''10.0.0.1''" "''root''" "''exit''" True ?s4
      True ?s5 "''exit''"] h
  have "shell_loop ''10.0.0.1'' ''root'' ?s0 =
        (if \<not> True then ?s4 else if \<not> True then ?s5
         else if 10 < length (py_split ''exit'') then ?s5
         else shell_loop ''10.0.0.1'' ''root'' ?s5)"
    by blast
  with w have "shell_loop ''10.0.0.1'' ''root'' ?s0 = shell_loop ''10.0.0.1'' ''root'' ?s5"
    by simp
  with g tr show ?thesis by (intro conjI)
qed

text \<open>
  Claim C6 as stated fails: the line \<open>ls\<close> is read, it has one word, and the loop ends
  all the same, because the \<open>send\<close> of the response raises. The event is logged, no
  response and no prompt are sent, and the next line stays unread.
\<close>

theorem shell_loop_ends_on_send_error:
  "fst (get_input False
          (telnet_init (map Chunk (''ls'' @ [CHR 0x0D] @ ''pwd'' @ [CHR 0x0D])) [True, True, False]))
     = Some ''ls'' \<and>
   length (py_split ''ls'') = 1 \<and>
   tn_recvs (shell_loop ''10.0.0.1'' ''root''
          (telnet_init (map Chunk (''ls'' @ [CHR 0x0D] @ ''pwd'' @ [CHR 0x0D])) [True, True, False]))
     = map Chunk (''pwd'' @ [CHR 0x0D]) \<and>
   tn_trace (shell_loop ''10.0.0.1'' ''root''
          (telnet_init (map Chunk (''ls'' @ [CHR 0x0D] @ ''pwd'' @ [CHR 0x0D])) [True, True, False]))
     = [Send ''l'', Send ''s'',
        Log (stamp ''telnet'' (command_event ''10.0.0.1'' ''root'' ''ls''))]"
  by code_simp

section \<open>Authentication in the four decoys\<close>

text \<open>
  The other decoys refuse every pair and log one event carrying it; the Telnet decoy does
  so for a pair of non-empty strings whose lines end in CR, and logs nothing when the
  lines end in CR LF, as the LF is read as an empty password.
\<close>

lemma telnet_crlf_logs_no_login_attempt:
  "login_events (tn_trace (handle_client (''10.0.0.1'', 4444)
      (telnet_init (map Chunk (''admin'' @ crlf @ ''secret'' @ crlf)) []))) = []"
  by code_simp

lemma telnet_cr_login_logs_one_attempt:
  "login_events (tn_trace (handle_client (''10.0.0.1'', 4444)
      (telnet_init (map Chunk (''admin'' @ [CHR 0x0D] @ ''secret'' @ [CHR 0x0D])) []))) =
     [stamp ''telnet''
        [(''event_type'', PStr ''login_attempt''), (''source_ip'', PStr ''10.0.0.1''),
         (''username'', PStr ''admin''), (''password'', PStr ''secret''),
         (''success'', PBool False), (''attack_type'', PStr ''brute_force''),
         (''threat_level'', PStr ''medium'')]]"
  by code_simp

lemma ftp_authentication_always_fails:
  "fst (validate_authentication username password client_ip h) =
     Inl (Exception ''Authentication failed'') \<and>
   ftp_events (snd (validate_authentication username password client_ip h)) =
     ftp_events h @
     [stamp ''ftp''
        [(''event_type'', PStr ''login_attempt''), (''source_ip'', PStr client_ip),
         (''username'', PStr username), (''password'', PStr password),
         (''success'', PBool False), (''attack_type'', PStr ''brute_force'')]]"
  by (simp add: validate_authentication_def ftp_log_event_def)

lemma ssh_authentication_always_fails:
  "fst (handle_auth username password client_ip h) = False \<and>
   fst (check_auth_password username password client_ip h) = AUTH_FAILED \<and>
   ssh_events (snd (check_auth_password username password client_ip h)) =
     ssh_events h @
     [stamp ''ssh''
        [(''event_type'', PStr ''auth_attempt''), (''source_ip'', PStr client_ip),
         (''username'', PStr username), (''password'', PStr password),
         (''success'', PBool False), (''user_agent'', PStr ''ssh_client''),
         (''attack_type'', PStr ''brute_force'')]]"
  by (simp add: handle_auth_def check_auth_password_def ssh_log_event_def)

lemma http_login_always_fails:
  "fst (fake_login_post client_ip [(''username'', username), (''password'', password)] h) = False \<and>
   http_events (snd (fake_login_post client_ip
      [(''username'', username), (''password'', password)] h)) =
     http_events h @
     [stamp ''http''
        [(''event_type'', PStr ''login_attempt''), (''source_ip'', PStr client_ip),
         (''username'', PStr username), (''password'', PStr password),
         (''success'', PBool False), (''attack_type'', PStr ''credential_stuffing'')]]"
  by (simp add: fake_login_post_def http_log_event_def)

text \<open>
  Claim C1, evaluated on a Telnet connection that submits the user name \<open>admin\<close> and an
  empty password: \<open>handle_client\<close> logs the connection and the disconnect and no login
  event, although the pair is one of \<open>iot_credentials\<close>.
\<close>

theorem telnet_empty_password_logs_no_login_attempt:
  "tn_trace (handle_client (''10.0.0.1'', 4444)
      (telnet_init (map Chunk (''admin'' @ [CHR 0x0D, CHR 0x0D])) [])) =
     [Log (stamp ''telnet'' (connection_event ''10.0.0.1'' 4444 23)),
      Send (''Ubuntu 20.04.3 LTS'' @ crlf @ ''login: ''),
      Send ''a'', Send ''d'', Send ''m'', Send ''i'', Send ''n'', Send ''Password: '',
      Close, Log (stamp ''telnet'' (disconnect_event ''10.0.0.1''))] \<and>
   login_events (tn_trace (handle_client (''10.0.0.1'', 4444)
      (telnet_init (map Chunk (''admin'' @ [CHR 0x0D, CHR 0x0D])) []))) = [] \<and>
   (''admin'', []) \<in> set iot_credentials"
  by code_simp

end
